theory Spec2Isabelle
  imports Complex_Main "HOL-Library.Option_ord"
begin

section \<open>Data model\<close>

text \<open>
  An instant on the UTC time line, counted in microseconds: what a \<^verbatim>\<open>DateTimeField\<close> column
  holds, what \<^verbatim>\<open>timezone.now()\<close> returns, and what the source client stamps its messages
  with (\<^verbatim>\<open>MockExternalAPIClient.base_date\<close> carries \<^verbatim>\<open>tzinfo=timezone.utc\<close>, and
  \<^verbatim>\<open>get_external_api_client\<close> builds the client with that default).
\<close>

type_synonym datetime = int

text \<open>
  A Python \<^verbatim>\<open>datetime\<close> object is offset-aware (an instant) or offset-naive (a wall-clock
  reading that names no zone; it is counted here as if it were read in UTC). The parsers
  of date strings return either kind, by whether the string carries an offset.
\<close>

datatype pydatetime = Aware datetime | Naive datetime

text \<open>\<^verbatim>\<open>Deal.SyncStatus\<close> (apps/chats/models.py) and \<^verbatim>\<open>SyncState.Status\<close>
  (apps/sync/models.py).\<close>

datatype SyncStatus = PENDING | COMPLETE | FAILED

datatype Status = Status_PENDING | Status_RUNNING | Status_COMPLETED | Status_FAILED

text \<open>The dataclasses of apps/sync/services/external\_api.py.\<close>

record ChatMessage =
  message_id :: string
  msg_text :: string
  created_at :: datetime

record ChatCustomer =
  cc_external_id :: string
  cc_name :: string
  cc_avatar_url :: string

record Chat =
  chat_external_id :: string
  chat_customer :: ChatCustomer
  last_message :: ChatMessage

record ChatPage =
  chats :: "Chat list"
  next_cursor :: "string option"
  has_more :: bool

text \<open>
  The rows of the three relational tables. Every row carries its primary key; the foreign
  key \<^verbatim>\<open>Deal.customer\<close> is the key of a customer row or NULL. The columns bounded by the
  database (\<^verbatim>\<open>max_length\<close>, the range of \<^verbatim>\<open>PositiveIntegerField\<close>) are unbounded here.
\<close>

record Customer =
  customer_id :: nat
  customer_external_id :: string
  customer_name :: string
  avatar_url :: string
  avatar_s3_key :: string
  customer_created_at :: datetime
  customer_updated_at :: datetime

record Deal =
  deal_id :: nat
  deal_external_id :: string
  deal_customer :: "nat option"
  last_message_id :: string
  last_message_at :: "datetime option"
  total_messages :: nat
  sync_status :: SyncStatus
  deal_created_at :: datetime
  deal_updated_at :: datetime

record SyncState =
  state_id :: nat
  task_id :: string
  status :: Status
  cursor :: string
  max_date :: "pydatetime option"
  processed_chats :: nat
  error_message :: string
  started_at :: datetime
  updated_at :: datetime

text \<open>An item of the message store (\<^verbatim>\<open>MockMessageStore.save_message\<close>).\<close>

record StoredMessage =
  sm_chat_id :: string
  sm_message_id :: string
  sm_text :: string
  sm_created_at :: datetime

text \<open>The exceptions that travel through the engine.\<close>

datatype exn =
    ExternalAPIError
  | MessageStoreError
  | DatabaseError
  | IntegrityError
  | MultipleObjectsReturned
  | ValueError
  | TypeError

text \<open>The column lists of \<^verbatim>\<open>save(update_fields=[...])\<close>.\<close>

datatype deal_field =
  F_customer | F_last_message_id | F_last_message_at | F_sync_status | F_total_messages
  | F_deal_updated_at

datatype customer_field = F_avatar_s3_key | F_customer_updated_at

datatype state_field = F_status | F_cursor | F_processed_chats | F_error_message | F_updated_at

text \<open>
  Every call the engine makes to a store, to the cache or to the source is appended to a
  log, in the order of the calls. A rollback undoes the tables, never the log.
\<close>

datatype op =
    CacheAdd string bool
  | CacheDelete string
  | Fetch "string option"
  | Begin
  | Commit
  | Rollback
  | DealSelect
  | DealInsert nat
  | DealUpdate nat "deal_field list"
  | CustomerSelect
  | CustomerInsert nat
  | CustomerUpdate nat "customer_field list"
  | StateSelect
  | StateInsert nat
  | StateUpdate nat "state_field list"
  | DocPut string string bool
  | S3Put string

text \<open>
  The state outside the engine: the three tables with their key sequences, the wall
  clock that stamps \<^verbatim>\<open>auto_now\<close> columns (it advances with every stamp), the message store
  (\<^verbatim>\<open>MockMessageStore._messages\<close>: chat id to message id to item), the S3 mock, the
  cache that holds the lock, the number of pages fetched so far, and the log.
\<close>

record world =
  customers :: "Customer list"
  deals :: "Deal list"
  sync_states :: "SyncState list"
  customer_seq :: nat
  deal_seq :: nat
  sync_state_seq :: nat
  now :: datetime
  messages :: "string \<rightharpoonup> (string \<rightharpoonup> StoredMessage)"
  s3_storage :: "string \<rightharpoonup> string"
  s3_content_types :: "string \<rightharpoonup> string"
  cache :: "string \<rightharpoonup> string"
  api_calls :: nat
  trace :: "op list"

text \<open>
  What the engine cannot decide: the source client (its answer to the k-th call), which
  calls to a store raise for which record, the HTTP download of an avatar (status code and
  body, or \<open>None\<close> when \<^verbatim>\<open>httpx.get\<close> raises), the S3 uploads that raise, the two
  library parsers of dates, and \<^verbatim>\<open>str(e)\<close>.
\<close>

datatype step = CustomerStep | DealStep | DocumentStep | FinalizeStep

record env =
  api_get_chats :: "nat \<Rightarrow> string option \<Rightarrow> exn + ChatPage"
  fault :: "step \<Rightarrow> Chat \<Rightarrow> bool"
  http_get :: "string \<Rightarrow> (nat \<times> string) option"
  s3_upload_raises :: "string \<Rightarrow> bool"
  parse_datetime :: "string \<Rightarrow> exn + pydatetime option"
  fromisoformat :: "string \<Rightarrow> pydatetime option"
  str_exn :: "exn \<Rightarrow> string"

section \<open>The stores\<close>

definition log :: "op \<Rightarrow> world \<Rightarrow> world" where
  "log e w = w\<lparr>trace := trace w @ [e]\<rparr>"

text \<open>\<^verbatim>\<open>order_by('-key')\<close> on PostgreSQL: descending, NULLs first.\<close>

definition order_by_desc :: "('a \<Rightarrow> datetime option) \<Rightarrow> 'a list \<Rightarrow> 'a list" where
  "order_by_desc k rows = sort_key (\<lambda>r. map_option uminus (k r)) rows"

definition first :: "'a list \<Rightarrow> 'a option" where
  "first rows = (case rows of [] \<Rightarrow> None | r # _ \<Rightarrow> Some r)"

subsection \<open>Deals\<close>

text \<open>\<^verbatim>\<open>Deal.objects.filter(external_id=eid).first()\<close>, under \<^verbatim>\<open>Meta.ordering = ['-last_message_at']\<close>.\<close>

definition deal_filter_first :: "string \<Rightarrow> world \<Rightarrow> Deal option \<times> world" where
  "deal_filter_first eid w =
     (first (order_by_desc last_message_at (filter (\<lambda>d. deal_external_id d = eid) (deals w))),
      log DealSelect w)"

text \<open>\<^verbatim>\<open>Deal.objects.create(...)\<close>: the unique constraint on \<^verbatim>\<open>external_id\<close> raises
  IntegrityError; \<^verbatim>\<open>total_messages\<close> takes its default 0.\<close>

definition deal_create ::
  "string \<Rightarrow> nat option \<Rightarrow> string \<Rightarrow> datetime option \<Rightarrow> SyncStatus \<Rightarrow> world \<Rightarrow> (exn + Deal) \<times> world" where
  "deal_create eid cust mid mat st w =
     (if eid \<in> deal_external_id ` set (deals w) then (Inl IntegrityError, w)
      else
        let d = \<lparr>deal_id = deal_seq w, deal_external_id = eid, deal_customer = cust,
                 last_message_id = mid, last_message_at = mat, total_messages = 0,
                 sync_status = st, deal_created_at = now w, deal_updated_at = now w\<rparr>
        in (Inr d, w\<lparr>deals := deals w @ [d], deal_seq := Suc (deal_seq w), now := now w + 1,
                      trace := trace w @ [DealInsert (deal_id d)]\<rparr>))"

fun deal_copy :: "datetime \<Rightarrow> Deal \<Rightarrow> deal_field \<Rightarrow> Deal \<Rightarrow> Deal" where
  "deal_copy t obj F_customer row = row\<lparr>deal_customer := deal_customer obj\<rparr>"
| "deal_copy t obj F_last_message_id row = row\<lparr>last_message_id := last_message_id obj\<rparr>"
| "deal_copy t obj F_last_message_at row = row\<lparr>last_message_at := last_message_at obj\<rparr>"
| "deal_copy t obj F_sync_status row = row\<lparr>sync_status := sync_status obj\<rparr>"
| "deal_copy t obj F_total_messages row = row\<lparr>total_messages := total_messages obj\<rparr>"
| "deal_copy t obj F_deal_updated_at row = row\<lparr>deal_updated_at := t\<rparr>"

text \<open>\<^verbatim>\<open>deal.save(update_fields=fs)\<close>: an UPDATE of the listed columns of the row with the
  object's key (\<^verbatim>\<open>updated_at\<close> is \<^verbatim>\<open>auto_now\<close>); Django raises DatabaseError when the
  UPDATE touches no row.\<close>

definition deal_save :: "deal_field list \<Rightarrow> Deal \<Rightarrow> world \<Rightarrow> (exn + unit) \<times> world" where
  "deal_save fs obj w =
     (if deal_id obj \<in> deal_id ` set (deals w)
      then (Inr (),
            w\<lparr>deals := map (\<lambda>row. if deal_id row = deal_id obj
                                     then fold (deal_copy (now w) obj) fs row else row) (deals w),
              now := now w + 1,
              trace := trace w @ [DealUpdate (deal_id obj) fs]\<rparr>)
      else (Inl DatabaseError, w))"

subsection \<open>Customers\<close>

text \<open>\<^verbatim>\<open>Customer.objects.get_or_create(external_id=eid, defaults={name, avatar_url})\<close>:
  the row with that external id if there is one (the boolean is False), a new row
  otherwise (True); \<^verbatim>\<open>get\<close> raises when several rows match.\<close>

definition customer_get_or_create ::
  "string \<Rightarrow> string \<Rightarrow> string \<Rightarrow> world \<Rightarrow> (exn + Customer \<times> bool) \<times> world" where
  "customer_get_or_create eid name url w =
     (case filter (\<lambda>c. customer_external_id c = eid) (customers w) of
        [] \<Rightarrow>
          let c = \<lparr>customer_id = customer_seq w, customer_external_id = eid, customer_name = name,
                   avatar_url = url, avatar_s3_key = [], customer_created_at = now w,
                   customer_updated_at = now w\<rparr>
          in (Inr (c, True),
              w\<lparr>customers := customers w @ [c], customer_seq := Suc (customer_seq w),
                now := now w + 1,
                trace := trace w @ [CustomerSelect, CustomerInsert (customer_id c)]\<rparr>)
      | [c] \<Rightarrow> (Inr (c, False), log CustomerSelect w)
      | _ \<Rightarrow> (Inl MultipleObjectsReturned, log CustomerSelect w))"

fun customer_copy :: "datetime \<Rightarrow> Customer \<Rightarrow> customer_field \<Rightarrow> Customer \<Rightarrow> Customer" where
  "customer_copy t obj F_avatar_s3_key row = row\<lparr>avatar_s3_key := avatar_s3_key obj\<rparr>"
| "customer_copy t obj F_customer_updated_at row = row\<lparr>customer_updated_at := t\<rparr>"

definition customer_save :: "customer_field list \<Rightarrow> Customer \<Rightarrow> world \<Rightarrow> (exn + unit) \<times> world" where
  "customer_save fs obj w =
     (if customer_id obj \<in> customer_id ` set (customers w)
      then (Inr (),
            w\<lparr>customers := map (\<lambda>row. if customer_id row = customer_id obj
                                         then fold (customer_copy (now w) obj) fs row else row)
                                 (customers w),
              now := now w + 1,
              trace := trace w @ [CustomerUpdate (customer_id obj) fs]\<rparr>)
      else (Inl DatabaseError, w))"

subsection \<open>Run states\<close>

definition incomplete :: "SyncState \<Rightarrow> bool" where
  "incomplete s = (status s = Status_RUNNING \<or> status s = Status_PENDING)"

text \<open>\<^verbatim>\<open>SyncState.objects.filter(status__in=[RUNNING, PENDING]).first()\<close>, under
  \<^verbatim>\<open>Meta.ordering = ['-started_at']\<close>.\<close>

definition state_filter_incomplete_first :: "world \<Rightarrow> SyncState option \<times> world" where
  "state_filter_incomplete_first w =
     (first (order_by_desc (\<lambda>s. Some (started_at s)) (filter incomplete (sync_states w))),
      log StateSelect w)"

text \<open>
  What a \<^verbatim>\<open>DateTimeField\<close> writes to its column under \<^verbatim>\<open>USE_TZ = True\<close>: a naive value is
  made aware in the default time zone (\<^verbatim>\<open>TIME_ZONE = 'UTC'\<close>), with a warning.
\<close>

definition make_aware :: "pydatetime \<Rightarrow> pydatetime" where
  "make_aware d = (case d of Aware t \<Rightarrow> Aware t | Naive t \<Rightarrow> Aware t)"

text \<open>\<^verbatim>\<open>SyncState.objects.create(task_id, status, max_date)\<close>: \<^verbatim>\<open>task_id\<close> is unique;
  \<^verbatim>\<open>cursor\<close>, \<^verbatim>\<open>processed_chats\<close> and \<^verbatim>\<open>error_message\<close> take their defaults. The row
  holds the cutoff made aware; the object returned keeps the value it was given.\<close>

definition state_create ::
  "string \<Rightarrow> Status \<Rightarrow> pydatetime option \<Rightarrow> world \<Rightarrow> (exn + SyncState) \<times> world" where
  "state_create tid st md w =
     (if tid \<in> task_id ` set (sync_states w) then (Inl IntegrityError, w)
      else
        let s = \<lparr>state_id = sync_state_seq w, task_id = tid, status = st, cursor = [],
                 max_date = md, processed_chats = 0, error_message = [],
                 started_at = now w, updated_at = now w\<rparr>
        in (Inr s, w\<lparr>sync_states := sync_states w @ [s\<lparr>max_date := map_option make_aware md\<rparr>],
                      sync_state_seq := Suc (sync_state_seq w),
                      now := now w + 1, trace := trace w @ [StateInsert (state_id s)]\<rparr>))"

fun state_copy :: "SyncState \<Rightarrow> state_field \<Rightarrow> SyncState \<Rightarrow> SyncState" where
  "state_copy obj F_status row = row\<lparr>status := status obj\<rparr>"
| "state_copy obj F_cursor row = row\<lparr>cursor := cursor obj\<rparr>"
| "state_copy obj F_processed_chats row = row\<lparr>processed_chats := processed_chats obj\<rparr>"
| "state_copy obj F_error_message row = row\<lparr>error_message := error_message obj\<rparr>"
| "state_copy obj F_updated_at row = row\<lparr>updated_at := updated_at obj\<rparr>"

text \<open>\<^verbatim>\<open>state.save(update_fields=fs)\<close>. The state object lives as long as the run, so the
  model returns it: \<^verbatim>\<open>auto_now\<close> stamps the object before the UPDATE.\<close>

definition state_save ::
  "state_field list \<Rightarrow> SyncState \<Rightarrow> world \<Rightarrow> (exn + unit) \<times> SyncState \<times> world" where
  "state_save fs obj w =
     (let obj1 = (if F_updated_at \<in> set fs then obj\<lparr>updated_at := now w\<rparr> else obj) in
      if state_id obj \<in> state_id ` set (sync_states w)
      then (Inr (), obj1,
            w\<lparr>sync_states := map (\<lambda>row. if state_id row = state_id obj
                                           then fold (state_copy obj1) fs row else row)
                                   (sync_states w),
              now := now w + 1,
              trace := trace w @ [StateUpdate (state_id obj) fs]\<rparr>)
      else (Inl DatabaseError, obj1, w))"

subsection \<open>Message store, S3 and cache\<close>

text \<open>\<^verbatim>\<open>MockMessageStore.save_message\<close>: the same key overwrites.\<close>

definition save_message :: "string \<Rightarrow> string \<Rightarrow> string \<Rightarrow> datetime \<Rightarrow> world \<Rightarrow> world" where
  "save_message chat_id mid txt t w =
     (let chat_messages = (case messages w chat_id of None \<Rightarrow> Map.empty | Some m \<Rightarrow> m);
          item = \<lparr>sm_chat_id = chat_id, sm_message_id = mid, sm_text = txt, sm_created_at = t\<rparr>
      in w\<lparr>messages := (messages w)(chat_id \<mapsto> chat_messages(mid \<mapsto> item)),
           trace := trace w @ [DocPut chat_id mid True]\<rparr>)"

text \<open>\<^verbatim>\<open>MockS3Service.upload_file\<close>.\<close>

definition upload_file :: "string \<Rightarrow> string \<Rightarrow> string \<Rightarrow> world \<Rightarrow> world" where
  "upload_file key data content_type w =
     w\<lparr>s3_storage := (s3_storage w)(key \<mapsto> data),
       s3_content_types := (if content_type \<noteq> [] then (s3_content_types w)(key \<mapsto> content_type)
                            else s3_content_types w),
       trace := trace w @ [S3Put key]\<rparr>"

text \<open>\<^verbatim>\<open>cache.add(key, v, timeout)\<close> stores only when the key is absent and tells whether it
  stored; \<^verbatim>\<open>cache.delete(key)\<close>. The expiry of a key is not modelled.\<close>

definition cache_add :: "string \<Rightarrow> string \<Rightarrow> world \<Rightarrow> bool \<times> world" where
  "cache_add key v w =
     (case cache w key of
        None \<Rightarrow> (True, w\<lparr>cache := (cache w)(key \<mapsto> v), trace := trace w @ [CacheAdd key True]\<rparr>)
      | Some _ \<Rightarrow> (False, log (CacheAdd key False) w))"

definition cache_delete :: "string \<Rightarrow> world \<Rightarrow> world" where
  "cache_delete key w = w\<lparr>cache := (cache w)(key := None), trace := trace w @ [CacheDelete key]\<rparr>"

section \<open>The sync engine (apps/sync/services/sync\_service.py)\<close>

text \<open>\<^verbatim>\<open>self.api_client.get_chats(cursor=cursor)\<close>.\<close>

definition api_client_get_chats :: "env \<Rightarrow> string option \<Rightarrow> world \<Rightarrow> (exn + ChatPage) \<times> world" where
  "api_client_get_chats env c w =
     (api_get_chats env (api_calls w) c,
      w\<lparr>api_calls := Suc (api_calls w), trace := trace w @ [Fetch c]\<rparr>)"

text \<open>\<^verbatim>\<open>_queue_avatar_upload\<close>: download, upload, record the key on the customer row; every
  exception is swallowed.\<close>

definition queue_avatar_upload :: "env \<Rightarrow> Customer \<Rightarrow> string \<Rightarrow> world \<Rightarrow> world" where
  "queue_avatar_upload env customer url w =
     (case http_get env url of
        None \<Rightarrow> w
      | Some (status_code, content) \<Rightarrow>
          if status_code = 200 then
            let key = ''avatars/'' @ customer_external_id customer @ ''.jpg'' in
            if s3_upload_raises env key then w
            else
              let w1 = upload_file key content ''image/jpeg'' w
              in snd (customer_save [F_avatar_s3_key, F_customer_updated_at]
                        (customer\<lparr>avatar_s3_key := key\<rparr>) w1)
          else w)"

text \<open>\<^verbatim>\<open>_get_or_create_customer\<close>.\<close>

definition get_or_create_customer :: "env \<Rightarrow> Chat \<Rightarrow> world \<Rightarrow> (exn + Customer) \<times> world" where
  "get_or_create_customer env chat w =
     (if fault env CustomerStep chat then (Inl DatabaseError, w)
      else
        case customer_get_or_create (cc_external_id (chat_customer chat))
               (cc_name (chat_customer chat)) (cc_avatar_url (chat_customer chat)) w of
          (Inl e, w1) \<Rightarrow> (Inl e, w1)
        | (Inr (customer, created), w1) \<Rightarrow>
            if created \<and> cc_avatar_url (chat_customer chat) \<noteq> []
            then (Inr customer,
                  queue_avatar_upload env customer (cc_avatar_url (chat_customer chat)) w1)
            else (Inr customer, w1))"

text \<open>\<^verbatim>\<open>_create_or_update_deal\<close>: the row is PENDING afterwards, also when it existed.\<close>

definition create_or_update_deal ::
  "env \<Rightarrow> Chat \<Rightarrow> Customer \<Rightarrow> Deal option \<Rightarrow> world \<Rightarrow> (exn + Deal) \<times> world" where
  "create_or_update_deal env chat customer existing_deal w =
     (if fault env DealStep chat then (Inl DatabaseError, w)
      else
        case existing_deal of
          Some d \<Rightarrow>
            let d1 = d\<lparr>deal_customer := Some (customer_id customer),
                       last_message_id := message_id (last_message chat),
                       last_message_at := Some (created_at (last_message chat)),
                       sync_status := PENDING\<rparr>
            in (case deal_save [F_customer, F_last_message_id, F_last_message_at, F_sync_status,
                                F_deal_updated_at] d1 w of
                  (Inl e, w1) \<Rightarrow> (Inl e, w1)
                | (Inr _, w1) \<Rightarrow> (Inr d1, w1))
        | None \<Rightarrow>
            deal_create (chat_external_id chat) (Some (customer_id customer))
              (message_id (last_message chat)) (Some (created_at (last_message chat))) PENDING w)"

text \<open>\<^verbatim>\<open>_save_message_to_dynamodb\<close>: the store may raise; then nothing is stored.\<close>

definition save_message_to_dynamodb :: "env \<Rightarrow> Chat \<Rightarrow> Deal \<Rightarrow> world \<Rightarrow> (exn + unit) \<times> world" where
  "save_message_to_dynamodb env chat deal w =
     (if fault env DocumentStep chat
      then (Inl MessageStoreError,
            log (DocPut (deal_external_id deal) (message_id (last_message chat)) False) w)
      else (Inr (),
            save_message (deal_external_id deal) (message_id (last_message chat))
              (msg_text (last_message chat)) (created_at (last_message chat)) w))"

text \<open>The body of the \<^verbatim>\<open>with transaction.atomic()\<close> block of \<^verbatim>\<open>_sync_chat_atomic\<close>.\<close>

definition sync_chat_body :: "env \<Rightarrow> Chat \<Rightarrow> Deal option \<Rightarrow> world \<Rightarrow> (exn + unit) \<times> world" where
  "sync_chat_body env chat existing_deal w =
     (case get_or_create_customer env chat w of
        (Inl e, w1) \<Rightarrow> (Inl e, w1)
      | (Inr customer, w1) \<Rightarrow>
          (case create_or_update_deal env chat customer existing_deal w1 of
             (Inl e, w2) \<Rightarrow> (Inl e, w2)
           | (Inr deal, w2) \<Rightarrow>
               (case save_message_to_dynamodb env chat deal w2 of
                  (Inl e, w3) \<Rightarrow> (Inl e, w3)
                | (Inr _, w3) \<Rightarrow>
                    if fault env FinalizeStep chat then (Inl DatabaseError, w3)
                    else deal_save [F_sync_status, F_total_messages, F_deal_updated_at]
                           (deal\<lparr>sync_status := COMPLETE,
                                 total_messages := total_messages deal + 1\<rparr>) w3)))"

text \<open>
  \<^verbatim>\<open>_sync_chat_atomic\<close>: \<^verbatim>\<open>transaction.atomic()\<close> commits when its block returns and, when
  the block raises, puts the three tables back as they were on entry and lets the
  exception through. The key sequences, the clock, the message store, S3 and the log are
  outside the relational transaction.
\<close>

definition rollback_to :: "world \<Rightarrow> world \<Rightarrow> world" where
  "rollback_to w0 w1 =
     w1\<lparr>customers := customers w0, deals := deals w0, sync_states := sync_states w0\<rparr>"

definition sync_chat_atomic :: "env \<Rightarrow> Chat \<Rightarrow> Deal option \<Rightarrow> world \<Rightarrow> (exn + unit) \<times> world" where
  "sync_chat_atomic env chat existing_deal w =
     (case sync_chat_body env chat existing_deal (log Begin w) of
        (Inl e, w1) \<Rightarrow> (Inl e, log Rollback (rollback_to w w1))
      | (Inr u, w1) \<Rightarrow> (Inr u, log Commit w1))"

text \<open>\<^verbatim>\<open>_save_cursor\<close> and \<^verbatim>\<open>_increment_processed\<close>.\<close>

definition save_cursor :: "string \<Rightarrow> SyncState \<Rightarrow> world \<Rightarrow> (exn + unit) \<times> SyncState \<times> world" where
  "save_cursor c st w = state_save [F_cursor, F_updated_at] (st\<lparr>cursor := c\<rparr>) w"

definition increment_processed :: "SyncState \<Rightarrow> world \<Rightarrow> (exn + unit) \<times> SyncState \<times> world" where
  "increment_processed st w =
     state_save [F_processed_chats, F_updated_at] (st\<lparr>processed_chats := processed_chats st + 1\<rparr>) w"

text \<open>
  \<^verbatim>\<open>aware < other\<close> on Python datetimes: TypeError (can't compare offset-naive and
  offset-aware datetimes) when \<open>other\<close> is naive.
\<close>

definition lt_aware :: "datetime \<Rightarrow> pydatetime \<Rightarrow> exn + bool" where
  "lt_aware t other = (case other of Aware t' \<Rightarrow> Inr (t < t') | Naive _ \<Rightarrow> Inl TypeError)"

text \<open>
  \<^verbatim>\<open>_process_chat\<close>. The result is the stop signal. The cutoff test stands before the
  \<^verbatim>\<open>try\<close>, so what it raises leaves \<^verbatim>\<open>_process_chat\<close>. In the handler,
  \<^verbatim>\<open>save(update_fields=['sync_status', 'updated_at'])\<close> writes two columns of the row with
  the key of \<^verbatim>\<open>existing_deal\<close>; what \<^verbatim>\<open>_create_or_update_deal\<close> had assigned to the other
  attributes of that object never reaches the table, so the handler is given the object
  as the query returned it.
\<close>

definition process_chat ::
  "env \<Rightarrow> Chat \<Rightarrow> SyncState \<Rightarrow> world \<Rightarrow> (exn + bool) \<times> SyncState \<times> world" where
  "process_chat env chat st w =
     (case (case max_date st of None \<Rightarrow> Inr False
            | Some d \<Rightarrow> lt_aware (created_at (last_message chat)) d) of
        Inl e \<Rightarrow> (Inl e, st, w)
      | Inr reached \<Rightarrow>
        if reached then (Inr True, st, w)
        else
        case deal_filter_first (chat_external_id chat) w of
          (existing_deal, w1) \<Rightarrow>
            if (case existing_deal of None \<Rightarrow> False
                | Some d \<Rightarrow> last_message_id d = message_id (last_message chat))
            then (Inr True, st, w1)
            else
              (case (case sync_chat_atomic env chat existing_deal w1 of
                       (Inl e, w2) \<Rightarrow> (Inl e, st, w2)
                     | (Inr _, w2) \<Rightarrow> increment_processed st w2) of
                 (Inr _, st3, w3) \<Rightarrow> (Inr False, st3, w3)
               | (Inl e, st3, w3) \<Rightarrow>
                   (case existing_deal of
                      None \<Rightarrow> (Inr False, st3, w3)
                    | Some d \<Rightarrow>
                        (case deal_save [F_sync_status, F_deal_updated_at]
                                (d\<lparr>sync_status := FAILED\<rparr>) w3 of
                           (Inl e', w4) \<Rightarrow> (Inl e', st3, w4)
                         | (Inr _, w4) \<Rightarrow> (Inr False, st3, w4)))))"

text \<open>\<^verbatim>\<open>_process_page\<close>: the records in page order, up to the first stop signal.\<close>

fun process_page ::
  "env \<Rightarrow> Chat list \<Rightarrow> SyncState \<Rightarrow> world \<Rightarrow> (exn + bool) \<times> SyncState \<times> world" where
  "process_page env [] st w = (Inr False, st, w)"
| "process_page env (chat # rest) st w =
     (case process_chat env chat st w of
        (Inl e, st1, w1) \<Rightarrow> (Inl e, st1, w1)
      | (Inr should_stop, st1, w1) \<Rightarrow>
          if should_stop then (Inr True, st1, w1) else process_page env rest st1 w1)"

text \<open>
  The \<^verbatim>\<open>while True\<close> loop of \<^verbatim>\<open>run\<close>, with fuel: one unit per page fetched; \<open>None\<close>
  when the fuel is spent before the loop breaks. A cursor that is \<^verbatim>\<open>None\<close> or empty is
  falsy and is not saved.
\<close>

fun run_loop ::
  "nat \<Rightarrow> env \<Rightarrow> string option \<Rightarrow> SyncState \<Rightarrow> world \<Rightarrow> ((exn + unit) \<times> SyncState \<times> world) option" where
  "run_loop 0 env c st w = None"
| "run_loop (Suc n) env c st w =
     (case api_client_get_chats env c w of
        (Inl e, w1) \<Rightarrow> Some (Inl e, st, w1)
      | (Inr page, w1) \<Rightarrow>
          (case process_page env (chats page) st w1 of
             (Inl e, st2, w2) \<Rightarrow> Some (Inl e, st2, w2)
           | (Inr should_stop, st2, w2) \<Rightarrow>
               (case (case next_cursor page of
                        None \<Rightarrow> (Inr (), st2, w2)
                      | Some nc \<Rightarrow> if nc \<noteq> [] then save_cursor nc st2 w2 else (Inr (), st2, w2)) of
                  (Inl e, st3, w3) \<Rightarrow> Some (Inl e, st3, w3)
                | (Inr _, st3, w3) \<Rightarrow>
                    if should_stop \<or> \<not> has_more page then Some (Inr (), st3, w3)
                    else run_loop n env (next_cursor page) st3 w3)))"

text \<open>\<^verbatim>\<open>SyncService.run\<close>: \<^verbatim>\<open>cursor = self.state.cursor or None\<close>.\<close>

definition run ::
  "nat \<Rightarrow> env \<Rightarrow> SyncState \<Rightarrow> world \<Rightarrow> ((exn + unit) \<times> SyncState \<times> world) option" where
  "run fuel env st w = run_loop fuel env (if cursor st = [] then None else Some (cursor st)) st w"

section \<open>The task (apps/sync/tasks.py)\<close>

definition SYNC_LOCK_KEY :: string where
  "SYNC_LOCK_KEY = ''sync_chats_lock''"

text \<open>
  \<^verbatim>\<open>_get_or_create_sync_state\<close>. An incomplete run is returned as it is stored; only
  when there is none is \<^verbatim>\<open>max_date\<close> parsed (\<^verbatim>\<open>parse_datetime\<close> raises ValueError on a
  well-formed but invalid date and returns None on an ill-formed one; then
  \<^verbatim>\<open>datetime.fromisoformat\<close> is tried and its ValueError swallowed) and a PENDING row
  created.
\<close>

definition get_or_create_sync_state ::
  "env \<Rightarrow> string \<Rightarrow> string option \<Rightarrow> world \<Rightarrow> (exn + SyncState) \<times> world" where
  "get_or_create_sync_state env tid max_date_str w =
     (case state_filter_incomplete_first w of
        (Some incomplete_state, w1) \<Rightarrow> (Inr incomplete_state, w1)
      | (None, w1) \<Rightarrow>
          (case (case max_date_str of
                   None \<Rightarrow> Inr None
                 | Some s \<Rightarrow>
                     if s = [] then Inr None
                     else (case parse_datetime env s of
                             Inl e \<Rightarrow> Inl e
                           | Inr (Some d) \<Rightarrow> Inr (Some d)
                           | Inr None \<Rightarrow> Inr (fromisoformat env s))) of
             Inl e \<Rightarrow> (Inl e, w1)
           | Inr parsed_date \<Rightarrow> state_create tid Status_PENDING parsed_date w1))"

text \<open>
  What one invocation of \<^verbatim>\<open>sync_chats_task\<close> gives back: the \<^verbatim>\<open>skipped\<close> dictionary, the
  \<^verbatim>\<open>completed\<close> dictionary (processed count and task id), \<^verbatim>\<open>raise self.retry(exc=e)\<close>, or
  an exception raised inside the \<^verbatim>\<open>except\<close> block itself.
\<close>

datatype task_result = Skipped | Completed nat string | Retry exn | Raised exn

text \<open>The \<^verbatim>\<open>except\<close> block followed by the \<^verbatim>\<open>finally\<close> block, for a state that exists.\<close>

definition task_failed :: "env \<Rightarrow> exn \<Rightarrow> SyncState \<Rightarrow> world \<Rightarrow> task_result \<times> world" where
  "task_failed env e st w =
     (case state_save [F_status, F_error_message, F_updated_at]
             (st\<lparr>status := Status_FAILED, error_message := str_exn env e\<rparr>) w of
        (Inl e', _, w1) \<Rightarrow> (Raised e', cache_delete SYNC_LOCK_KEY w1)
      | (Inr _, _, w1) \<Rightarrow> (Retry e, cache_delete SYNC_LOCK_KEY w1))"

text \<open>\<^verbatim>\<open>sync_chats_task\<close>, one invocation; \<open>None\<close> when the run loop is out of fuel.\<close>

definition sync_chats_task ::
  "nat \<Rightarrow> env \<Rightarrow> string \<Rightarrow> string option \<Rightarrow> world \<Rightarrow> (task_result \<times> world) option" where
  "sync_chats_task fuel env request_id max_date_str w =
     (case cache_add SYNC_LOCK_KEY request_id w of
        (False, w1) \<Rightarrow> Some (Skipped, w1)
      | (True, w1) \<Rightarrow>
          (case get_or_create_sync_state env request_id max_date_str w1 of
             (Inl e, w2) \<Rightarrow> Some (Retry e, cache_delete SYNC_LOCK_KEY w2)
           | (Inr state, w2) \<Rightarrow>
               (case state_save [F_status, F_updated_at] (state\<lparr>status := Status_RUNNING\<rparr>) w2 of
                  (Inl e, st3, w3) \<Rightarrow> Some (task_failed env e st3 w3)
                | (Inr _, st3, w3) \<Rightarrow>
                    (case run fuel env st3 w3 of
                       None \<Rightarrow> None
                     | Some (Inl e, st4, w4) \<Rightarrow> Some (task_failed env e st4 w4)
                     | Some (Inr _, st4, w4) \<Rightarrow>
                         (case state_save [F_status, F_updated_at]
                                 (st4\<lparr>status := Status_COMPLETED\<rparr>) w4 of
                            (Inl e, st5, w5) \<Rightarrow> Some (task_failed env e st5 w5)
                          | (Inr _, st5, w5) \<Rightarrow>
                              Some (Completed (processed_chats st5) (task_id st5),
                                    cache_delete SYNC_LOCK_KEY w5))))))"

section \<open>The listing queries (apps/chats)\<close>

text \<open>\<^verbatim>\<open>DealViewSet.get_queryset\<close> (views.py): the rows the API lists.\<close>

definition get_queryset :: "world \<Rightarrow> Deal list" where
  "get_queryset w =
     order_by_desc last_message_at
       (filter (\<lambda>d. sync_status d = COMPLETE \<and> deal_customer d \<noteq> None) (deals w))"

text \<open>\<^verbatim>\<open>DealManager.complete\<close> (models.py), under \<^verbatim>\<open>Meta.ordering\<close>.\<close>

definition complete :: "world \<Rightarrow> Deal list" where
  "complete w = order_by_desc last_message_at (filter (\<lambda>d. sync_status d = COMPLETE) (deals w))"

section \<open>The mock source (apps/sync/services/external\_api.py)\<close>

record MockExternalAPIClient =
  total_chats :: int
  page_size :: int
  failure_rate :: rat
  base_date :: datetime

text \<open>\<^verbatim>\<open>str(n)\<close> and \<^verbatim>\<open>f'{n:04d}'\<close> of an integer.\<close>

fun str_nat :: "nat \<Rightarrow> string" where
  "str_nat n = (if n < 10 then [char_of (48 + n)] else str_nat (n div 10) @ [char_of (48 + n mod 10)])"

definition str_int :: "int \<Rightarrow> string" where
  "str_int i = (if i < 0 then CHR ''-'' # str_nat (nat (- i)) else str_nat (nat i))"

definition zfill :: "nat \<Rightarrow> string \<Rightarrow> string" where
  "zfill n s = replicate (n - length s) CHR ''0'' @ s"

definition fmt_04d :: "int \<Rightarrow> string" where
  "fmt_04d i = (if i < 0 then CHR ''-'' # zfill 3 (str_nat (nat (- i))) else zfill 4 (str_nat (nat i)))"

text \<open>\<^verbatim>\<open>_generate_chat\<close>: \<^verbatim>\<open>timedelta(hours=index)\<close> in microseconds.\<close>

definition generate_chat :: "MockExternalAPIClient \<Rightarrow> int \<Rightarrow> Chat" where
  "generate_chat cl index =
     (let chat_id = ''chat_'' @ fmt_04d index;
          cust_id = ''cust_'' @ fmt_04d index;
          msg_id = ''msg_'' @ fmt_04d index;
          message_date = base_date cl - index * 3600000000
      in \<lparr>chat_external_id = chat_id,
          chat_customer = \<lparr>cc_external_id = cust_id, cc_name = ''Customer '' @ str_int index,
                           cc_avatar_url = ''https://example.com/avatars/'' @ cust_id @ ''.jpg''\<rparr>,
          last_message = \<lparr>message_id = msg_id,
                          msg_text = ''Message from customer '' @ str_int index,
                          created_at = message_date\<rparr>\<rparr>)"

text \<open>\<^verbatim>\<open>base64.b64encode\<close> on a list of bytes, and \<^verbatim>\<open>_encode_cursor\<close>.\<close>

definition b64_digit :: "nat \<Rightarrow> char" where
  "b64_digit n =
     (if n < 26 then char_of (65 + n)
      else if n < 52 then char_of (97 + (n - 26))
      else if n < 62 then char_of (48 + (n - 52))
      else if n = 62 then CHR ''+'' else CHR ''/'')"

fun b64encode :: "nat list \<Rightarrow> string" where
  "b64encode [] = []"
| "b64encode [a] = [b64_digit (a div 4), b64_digit (a mod 4 * 16), CHR ''='', CHR ''='']"
| "b64encode [a, b] =
     [b64_digit (a div 4), b64_digit (a mod 4 * 16 + b div 16), b64_digit (b mod 16 * 4), CHR ''='']"
| "b64encode (a # b # c # rest) =
     [b64_digit (a div 4), b64_digit (a mod 4 * 16 + b div 16),
      b64_digit (b mod 16 * 4 + c div 64), b64_digit (c mod 64)] @ b64encode rest"

definition encode_cursor :: "int \<Rightarrow> string" where
  "encode_cursor page_num = b64encode (map of_char (str_int page_num))"

text \<open>
  \<^verbatim>\<open>_decode_cursor\<close>. The library calls \<^verbatim>\<open>int(base64.b64decode(cursor).decode('utf-8'))\<close>
  are the parameter \<open>dec\<close> (\<open>None\<close> when one of them raises): a falsy cursor and every
  exception give page 0.
\<close>

definition decode_cursor :: "(string \<Rightarrow> int option) \<Rightarrow> string option \<Rightarrow> int" where
  "decode_cursor dec c =
     (case c of
        None \<Rightarrow> 0
      | Some s \<Rightarrow> if s = [] then 0 else (case dec s of None \<Rightarrow> 0 | Some n \<Rightarrow> n))"

text \<open>
  \<^verbatim>\<open>MockExternalAPIClient.get_chats\<close>; \<open>u\<close> is the draw of \<^verbatim>\<open>random.random()\<close>. The
  customers cache it fills is read by \<^verbatim>\<open>get_customer\<close> only, which the engine never calls.
\<close>

definition get_chats ::
  "MockExternalAPIClient \<Rightarrow> (string \<Rightarrow> int option) \<Rightarrow> rat \<Rightarrow> string option \<Rightarrow> exn + ChatPage" where
  "get_chats cl dec u c =
     (if failure_rate cl > 0 \<and> u < failure_rate cl then Inl ExternalAPIError
      else
        let page_num = decode_cursor dec c;
            start_idx = page_num * page_size cl;
            end_idx = min (start_idx + page_size cl) (total_chats cl);
            more = end_idx < total_chats cl
        in Inr \<lparr>chats = map (generate_chat cl) [start_idx..end_idx - 1],
                next_cursor = (if more then Some (encode_cursor (page_num + 1)) else None),
                has_more = more\<rparr>)"

section \<open>Concrete inputs\<close>

text \<open>An empty database, an empty message store and a free lock.\<close>

definition fresh :: world where
  "fresh = \<lparr>customers = [], deals = [], sync_states = [], customer_seq = 1, deal_seq = 1,
     sync_state_seq = 1, now = 0, messages = Map.empty, s3_storage = Map.empty,
     s3_content_types = Map.empty, cache = Map.empty, api_calls = 0, trace = []\<rparr>"


text \<open>An environment in which nothing raises: the source is the given client, and no
  avatar can be downloaded.\<close>

definition quiet_env :: "(nat \<Rightarrow> string option \<Rightarrow> exn + ChatPage) \<Rightarrow> env" where
  "quiet_env api = \<lparr>api_get_chats = api, fault = (\<lambda>s c. False), http_get = (\<lambda>u. None),
     s3_upload_raises = (\<lambda>k. False), parse_datetime = (\<lambda>s. Inr None),
     fromisoformat = (\<lambda>s. None), str_exn = (\<lambda>e. [])\<rparr>"

text \<open>A source with no records at all.\<close>

definition empty_source :: "nat \<Rightarrow> string option \<Rightarrow> exn + ChatPage" where
  "empty_source k c = Inr \<lparr>chats = [], next_cursor = None, has_more = False\<rparr>"

definition untouched :: "world \<Rightarrow> world \<Rightarrow> bool" where
  "untouched w w' \<longleftrightarrow> api_calls w' = api_calls w \<and> cache w' = cache w
     \<and> sync_states w' = sync_states w \<and> sync_state_seq w' = sync_state_seq w"

definition same_run :: "SyncState \<Rightarrow> SyncState \<Rightarrow> bool" where
  "same_run st st' \<longleftrightarrow> state_id st' = state_id st \<and> task_id st' = task_id st
     \<and> status st' = status st \<and> cursor st' = cursor st \<and> max_date st' = max_date st"

text \<open>The cutoff test does not let the record through: the record is older than the
  cutoff, or the comparison raises.\<close>

definition too_old :: "SyncState \<Rightarrow> Chat \<Rightarrow> bool" where
  "too_old st chat =
     (case max_date st of None \<Rightarrow> False
      | Some d \<Rightarrow> lt_aware (created_at (last_message chat)) d \<noteq> Inr False)"

text \<open>What \<^verbatim>\<open>_process_chat\<close> gives for such a record.\<close>

definition cutoff_result :: "SyncState \<Rightarrow> exn + bool" where
  "cutoff_result st = (case max_date st of Some (Naive _) \<Rightarrow> Inl TypeError | _ \<Rightarrow> Inr True)"

definition unchanged :: "Deal option \<Rightarrow> Chat \<Rightarrow> bool" where
  "unchanged ex chat =
     (case ex of None \<Rightarrow> False | Some d \<Rightarrow> last_message_id d = message_id (last_message chat))"

definition cursor_ops :: "ChatPage \<Rightarrow> SyncState \<Rightarrow> op list" where
  "cursor_ops page st =
     (case next_cursor page of
        None \<Rightarrow> []
      | Some nc \<Rightarrow> if nc \<noteq> [] then [StateUpdate (state_id st) [F_cursor, F_updated_at]] else [])"

definition fetched :: "string option \<Rightarrow> world \<Rightarrow> world" where
  "fetched c w = w\<lparr>api_calls := Suc (api_calls w), trace := trace w @ [Fetch c]\<rparr>"

definition chat_at :: "datetime \<Rightarrow> Chat" where
  "chat_at t = \<lparr>chat_external_id = ''chat_0000'',
     chat_customer = \<lparr>cc_external_id = ''cust_0000'', cc_name = ''Customer 0'', cc_avatar_url = []\<rparr>,
     last_message = \<lparr>message_id = ''msg_0000'', msg_text = ''hello'', created_at = t\<rparr>\<rparr>"

definition run_state :: "pydatetime option \<Rightarrow> SyncState" where
  "run_state md = \<lparr>state_id = 1, task_id = ''task-1'', status = Status_RUNNING, cursor = [],
     max_date = md, processed_chats = 0, error_message = [], started_at = 0, updated_at = 0\<rparr>"

definition one_page :: "Chat list \<Rightarrow> nat \<Rightarrow> string option \<Rightarrow> exn + ChatPage" where
  "one_page cs k c = Inr \<lparr>chats = cs, next_cursor = None, has_more = False\<rparr>"

fun store_write :: "op \<Rightarrow> bool" where
  "store_write (DealInsert _) = True"
| "store_write (DealUpdate _ _) = True"
| "store_write (CustomerInsert _) = True"
| "store_write (CustomerUpdate _ _) = True"
| "store_write (DocPut _ _ _) = True"
| "store_write (S3Put _) = True"
| "store_write _ = False"

definition synced_deal :: Deal where
  "synced_deal = \<lparr>deal_id = 1, deal_external_id = ''chat_0000'', deal_customer = Some 1,
     last_message_id = ''msg_0000'', last_message_at = Some 100, total_messages = 1,
     sync_status = COMPLETE, deal_created_at = 0, deal_updated_at = 0\<rparr>"

definition synced_customer :: Customer where
  "synced_customer = \<lparr>customer_id = 1, customer_external_id = ''cust_0000'',
     customer_name = ''Customer 0'', avatar_url = [], avatar_s3_key = [],
     customer_created_at = 0, customer_updated_at = 0\<rparr>"

text \<open>The database after a first run that synced the one record \<open>chat_at 100\<close>.\<close>

definition synced :: world where
  "synced = fresh\<lparr>customers := [synced_customer], deals := [synced_deal],
     sync_states := [run_state None\<lparr>status := Status_COMPLETED, processed_chats := 1\<rparr>],
     customer_seq := 2, deal_seq := 2, sync_state_seq := 2, now := 10\<rparr>"

definition others_kept :: "nat \<Rightarrow> world \<Rightarrow> world \<Rightarrow> bool" where
  "others_kept k w w' \<longleftrightarrow> map state_id (sync_states w') = map state_id (sync_states w)
     \<and> filter (\<lambda>s. state_id s \<noteq> k) (sync_states w') = filter (\<lambda>s. state_id s \<noteq> k) (sync_states w)
     \<and> sync_state_seq w' = sync_state_seq w"




definition mark_failed :: "nat \<Rightarrow> datetime \<Rightarrow> Deal list \<Rightarrow> Deal list" where
  "mark_failed pk t rows =
     map (\<lambda>row. if deal_id row = pk then row\<lparr>sync_status := FAILED, deal_updated_at := t\<rparr> else row) rows"

text \<open>An environment in which every write to the message store raises.\<close>

definition doc_store_down :: env where
  "doc_store_down = (quiet_env empty_source)\<lparr>fault := (\<lambda>s c. s = DocumentStep)\<rparr>"

text \<open>The record of \<open>chat_at\<close> with a newer last message.\<close>

definition chat_newer :: Chat where
  "chat_newer = (chat_at 200)\<lparr>last_message :=
     \<lparr>message_id = ''msg_0001'', msg_text = ''again'', created_at = 200\<rparr>\<rparr>"

text \<open>The calls of the first two steps of the atomic section: resolving the counterparty
  (with the avatar upload) and inserting or updating the entity row as PENDING.\<close>

fun upsert_op :: "op \<Rightarrow> bool" where
  "upsert_op CustomerSelect = True"
| "upsert_op (CustomerInsert _) = True"
| "upsert_op (CustomerUpdate _ _) = True"
| "upsert_op (S3Put _) = True"
| "upsert_op (DealInsert _) = True"
| "upsert_op (DealUpdate _ fs) =
     (fs = [F_customer, F_last_message_id, F_last_message_at, F_sync_status, F_deal_updated_at])"
| "upsert_op _ = False"

definition finalize_fields :: "deal_field list" where
  "finalize_fields = [F_sync_status, F_total_messages, F_deal_updated_at]"


definition record_eid :: "Deal option \<Rightarrow> Chat \<Rightarrow> string" where
  "record_eid ex chat = (case ex of None \<Rightarrow> chat_external_id chat | Some d \<Rightarrow> deal_external_id d)"

definition customers_ok :: "world \<Rightarrow> bool" where
  "customers_ok w \<longleftrightarrow> distinct (map customer_external_id (customers w))
     \<and> list_all (\<lambda>c. customer_id c < customer_seq w) (customers w)"

definition customers_grow :: "world \<Rightarrow> world \<Rightarrow> bool" where
  "customers_grow w w' \<longleftrightarrow>
     (customers_ok w \<longrightarrow> (\<exists>new. customers w' = customers w @ new)
        \<and> customer_seq w \<le> customer_seq w' \<and> customers_ok w')"

text \<open>The entity rows of one external id.\<close>

definition rows_of :: "string \<Rightarrow> world \<Rightarrow> Deal list" where
  "rows_of eid w = filter (\<lambda>d. deal_external_id d = eid) (deals w)"

text \<open>What the schema guarantees of the deals table: \<^verbatim>\<open>external_id\<close> is unique, the
  primary key is unique and was drawn from the key sequence.\<close>

definition deals_ok :: "world \<Rightarrow> bool" where
  "deals_ok w \<longleftrightarrow> distinct (map deal_external_id (deals w)) \<and> distinct (map deal_id (deals w))
     \<and> list_all (\<lambda>d. deal_id d < deal_seq w) (deals w)"

text \<open>One of the four steps of the atomic section raises for the record.\<close>

definition record_fails :: "env \<Rightarrow> Chat \<Rightarrow> bool" where
  "record_fails env chat \<longleftrightarrow> fault env CustomerStep chat \<or> fault env DealStep chat
     \<or> fault env DocumentStep chat \<or> fault env FinalizeStep chat"

text \<open>No entity row of the record's external id holds the record's last message yet.\<close>

definition changed :: "world \<Rightarrow> Chat \<Rightarrow> bool" where
  "changed w chat =
     list_all (\<lambda>d. last_message_id d \<noteq> message_id (last_message chat))
       (rows_of (chat_external_id chat) w)"

definition deals_same :: "world \<Rightarrow> world \<Rightarrow> bool" where
  "deals_same w w' \<longleftrightarrow> deals w' = deals w \<and> deal_seq w' = deal_seq w"

text \<open>The rows of the other external ids are what they were.\<close>

definition others_same :: "string list \<Rightarrow> world \<Rightarrow> world \<Rightarrow> bool" where
  "others_same eids w w' \<longleftrightarrow>
     filter (\<lambda>d. deal_external_id d \<notin> set eids) (deals w')
       = filter (\<lambda>d. deal_external_id d \<notin> set eids) (deals w)"

text \<open>
  What a record leaves in the deals table: when no step raised, one row of its external
  id, COMPLETE; when a step raised, the rows there were before (one or none), FAILED.
\<close>

definition outcome :: "env \<Rightarrow> world \<Rightarrow> world \<Rightarrow> Chat \<Rightarrow> bool" where
  "outcome env w w' chat \<longleftrightarrow>
     map sync_status (rows_of (chat_external_id chat) w')
       = (if record_fails env chat
          then replicate (length (rows_of (chat_external_id chat) w)) FAILED
          else [COMPLETE])"

text \<open>
  A new run whose cutoff string carries no UTC offset: \<^verbatim>\<open>parse_datetime\<close> returns a naive
  datetime for it. The source holds the one record \<open>chat_at 100\<close>.
\<close>

definition naive_cutoff_env :: env where
  "naive_cutoff_env =
     (quiet_env (one_page [chat_at 100]))\<lparr>parse_datetime := (\<lambda>s. Inr (Some (Naive 100)))\<rparr>"

text \<open>The mock client with ten records on one page, stamped back from 2024-05-20 12:00 UTC.\<close>

definition ten_records :: MockExternalAPIClient where
  "ten_records = \<lparr>total_chats = 10, page_size = 10, failure_rate = 0,
     base_date = 1716206400000000\<rparr>"

text \<open>An environment whose source is that client and whose message store raises for the
  seventh record, \<open>chat_0006\<close>, and for no other.\<close>

definition seventh_fails :: env where
  "seventh_fails = (quiet_env (\<lambda>k c. get_chats ten_records (\<lambda>s. None) 0 c))
     \<lparr>fault := (\<lambda>s chat. s = DocumentStep \<and> chat_external_id chat = ''chat_0006'')\<rparr>"

text \<open>A database that knows the seventh record from an earlier run, with an older last
  message, and holds the running state.\<close>

definition seventh_known :: world where
  "seventh_known = fresh\<lparr>
     customers := [\<lparr>customer_id = 1, customer_external_id = ''cust_0006'',
        customer_name = ''Customer 6'', avatar_url = [], avatar_s3_key = [],
        customer_created_at = 0, customer_updated_at = 0\<rparr>],
     deals := [\<lparr>deal_id = 1, deal_external_id = ''chat_0006'', deal_customer = Some 1,
        last_message_id = ''msg_0000'', last_message_at = Some 0, total_messages = 1,
        sync_status = COMPLETE, deal_created_at = 0, deal_updated_at = 0\<rparr>],
     sync_states := [run_state None],
     customer_seq := 2, deal_seq := 2, sync_state_seq := 2, now := 10\<rparr>"

text \<open>The calls that mark the pages in the log: a fetch of a page, and a save of the
  cursor (\<^verbatim>\<open>_save_cursor\<close>).\<close>

fun cursor_save :: "op \<Rightarrow> bool" where
  "cursor_save (StateUpdate _ fs) = (fs = [F_cursor, F_updated_at])"
| "cursor_save _ = False"

fun page_mark :: "op \<Rightarrow> bool" where
  "page_mark (Fetch _) = True"
| "page_mark e = cursor_save e"

definition marks :: "world \<Rightarrow> op list" where
  "marks w = filter page_mark (trace w)"

section \<open>Properties\<close>

subsection \<open>Listing queries\<close>

lemma set_order_by_desc [simp]: "set (order_by_desc k rows) = set rows"
  by (simp add: order_by_desc_def)

lemma get_queryset_visible:
  "d \<in> set (get_queryset w) \<Longrightarrow> sync_status d = COMPLETE \<and> deal_customer d \<noteq> None"
  by (simp add: get_queryset_def)

lemma complete_status: "d \<in> set (complete w) \<Longrightarrow> sync_status d = COMPLETE"
  by (simp add: complete_def)


subsection \<open>The lock\<close>

text \<open>
  C8. When the lock key is already in the cache, \<open>cache.add\<close> answers False and the
  invocation returns the skipped outcome at once: the world is as before but for the log,
  which gained the one \<open>CacheAdd\<close> call and no call on a run state (no select, insert or
  update); the lock stays with its owner.
\<close>

theorem lock_held_skips:
  assumes "cache w SYNC_LOCK_KEY = Some owner"
  shows "sync_chats_task fuel env request_id max_date_str w
         = Some (Skipped, w\<lparr>trace := trace w @ [CacheAdd SYNC_LOCK_KEY False]\<rparr>)"
  using assms by (simp add: sync_chats_task_def cache_add_def log_def)

theorem lock_held_skips_witness:
  "sync_chats_task 3 (quiet_env empty_source) ''task-2'' None (fresh\<lparr>cache := [SYNC_LOCK_KEY \<mapsto> ''task-1'']\<rparr>)
   = Some (Skipped, fresh\<lparr>cache := [SYNC_LOCK_KEY \<mapsto> ''task-1''],
                          trace := [CacheAdd SYNC_LOCK_KEY False]\<rparr>)"
  using lock_held_skips [of "fresh\<lparr>cache := [SYNC_LOCK_KEY \<mapsto> ''task-1'']\<rparr>" "''task-1''" 3 "quiet_env empty_source" "''task-2''" None]
  by (simp add: fresh_def)

lemma untouched_refl [simp]: "untouched w w"
  by (simp add: untouched_def)

lemma untouched_trans: "untouched w w1 \<Longrightarrow> untouched w1 w2 \<Longrightarrow> untouched w w2"
  by (simp add: untouched_def)

lemma untouched_log [simp]: "untouched w (log e w)"
  by (simp add: untouched_def log_def)

lemma untouched_deal_filter_first: "deal_filter_first eid w = (r, w') \<Longrightarrow> untouched w w'"
  by (auto simp: deal_filter_first_def)

lemma untouched_deal_save: "deal_save fs obj w = (r, w') \<Longrightarrow> untouched w w'"
  by (auto simp: untouched_def deal_save_def split: if_splits)

lemma untouched_deal_create: "deal_create eid cust mid mat s w = (r, w') \<Longrightarrow> untouched w w'"
  by (auto simp: untouched_def deal_create_def Let_def split: if_splits)

lemma untouched_customer_save: "customer_save fs obj w = (r, w') \<Longrightarrow> untouched w w'"
  by (auto simp: untouched_def customer_save_def split: if_splits)

lemma untouched_customer_get_or_create:
  "customer_get_or_create eid n u w = (r, w') \<Longrightarrow> untouched w w'"
  by (auto simp: untouched_def customer_get_or_create_def Let_def log_def split: list.splits)

lemma untouched_upload_file [simp]: "untouched w (upload_file k d ct w)"
  by (simp add: untouched_def upload_file_def)

lemma untouched_queue_avatar_upload [simp]: "untouched w (queue_avatar_upload env c u w)"
  unfolding queue_avatar_upload_def Let_def
  by (auto split: option.split prod.split
      intro: untouched_trans [OF untouched_upload_file untouched_customer_save, OF surjective_pairing])

lemma untouched_get_or_create_customer:
  "get_or_create_customer env chat w = (r, w') \<Longrightarrow> untouched w w'"
  unfolding get_or_create_customer_def
  by (auto split: prod.splits sum.splits if_splits
      dest!: untouched_customer_get_or_create intro: untouched_trans)

lemma untouched_create_or_update_deal:
  "create_or_update_deal env chat c ex w = (r, w') \<Longrightarrow> untouched w w'"
  unfolding create_or_update_deal_def Let_def
  by (auto split: option.splits prod.splits sum.splits if_splits
      dest: untouched_deal_create untouched_deal_save)

lemma untouched_save_message_to_dynamodb:
  "save_message_to_dynamodb env chat d w = (r, w') \<Longrightarrow> untouched w w'"
  by (auto simp: save_message_to_dynamodb_def save_message_def Let_def untouched_def log_def
      split: if_splits)

lemma untouched_sync_chat_body:
  "sync_chat_body env chat ex w = (r, w') \<Longrightarrow> untouched w w'"
  unfolding sync_chat_body_def
  by (auto split: prod.splits sum.splits if_splits
      dest!: untouched_get_or_create_customer untouched_create_or_update_deal
        untouched_save_message_to_dynamodb untouched_deal_save
      intro: untouched_trans)

lemma untouched_rollback_to: "untouched w0 w1 \<Longrightarrow> untouched w0 (rollback_to w0 w1)"
  by (simp add: untouched_def rollback_to_def)

lemma untouched_sync_chat_atomic:
  "sync_chat_atomic env chat ex w = (r, w') \<Longrightarrow> untouched w w'"
  unfolding sync_chat_atomic_def
  by (auto split: prod.splits sum.splits dest!: untouched_sync_chat_body
      simp: untouched_def log_def rollback_to_def)

lemma same_run_refl [simp]: "same_run st st"
  by (simp add: same_run_def)

lemma state_save_row:
  assumes "st \<in> set (sync_states w)" and "state_id obj = state_id st"
    and "fold (state_copy (obj\<lparr>updated_at := now w\<rparr>)) fs st = obj\<lparr>updated_at := now w\<rparr>"
    and "F_updated_at \<in> set fs"
  shows "\<exists>w'. state_save fs obj w = (Inr (), obj\<lparr>updated_at := now w\<rparr>, w')
           \<and> obj\<lparr>updated_at := now w\<rparr> \<in> set (sync_states w')
           \<and> customers w' = customers w \<and> deals w' = deals w \<and> messages w' = messages w
           \<and> customer_seq w' = customer_seq w \<and> deal_seq w' = deal_seq w
           \<and> sync_state_seq w' = sync_state_seq w
           \<and> api_calls w' = api_calls w \<and> cache w' = cache w
           \<and> length (sync_states w') = length (sync_states w)
           \<and> trace w' = trace w @ [StateUpdate (state_id st) fs]"
proof -
  define obj1 where "obj1 = obj\<lparr>updated_at := now w\<rparr>"
  define g where "g = (\<lambda>row. if state_id row = state_id obj then fold (state_copy obj1) fs row else row)"
  have ex: "state_id obj \<in> state_id ` set (sync_states w)"
    using assms(1,2) by (simp add: image_iff) blast
  have "g st = obj1"
    using assms(2,3) by (simp add: g_def obj1_def)
  then have mem: "obj1 \<in> g ` set (sync_states w)"
    using assms(1) by (intro image_eqI [where x = st]) simp_all
  have eq: "state_save fs obj w =
      (Inr (), obj1, w\<lparr>sync_states := map g (sync_states w), now := now w + 1,
                        trace := trace w @ [StateUpdate (state_id obj) fs]\<rparr>)"
    using ex assms(4) by (simp add: state_save_def Let_def g_def obj1_def)
  show ?thesis
    unfolding eq obj1_def [symmetric]
    using mem assms(2) by simp
qed

lemma increment_processed_ok:
  assumes "st \<in> set (sync_states w)"
  shows "\<exists>st' w'. increment_processed st w = (Inr (), st', w') \<and> st' \<in> set (sync_states w')
           \<and> same_run st st' \<and> processed_chats st' = Suc (processed_chats st)
           \<and> customers w' = customers w \<and> deals w' = deals w \<and> messages w' = messages w
           \<and> customer_seq w' = customer_seq w \<and> deal_seq w' = deal_seq w
           \<and> api_calls w' = api_calls w \<and> cache w' = cache w
           \<and> trace w' = trace w @ [StateUpdate (state_id st) [F_processed_chats, F_updated_at]]"
  using state_save_row [OF assms, of "st\<lparr>processed_chats := processed_chats st + 1\<rparr>"
      "[F_processed_chats, F_updated_at]"]
  by (auto simp: increment_processed_def same_run_def)

lemma save_cursor_ok:
  assumes "st \<in> set (sync_states w)"
  shows "\<exists>st' w'. save_cursor c st w = (Inr (), st', w') \<and> st' \<in> set (sync_states w')
           \<and> state_id st' = state_id st \<and> task_id st' = task_id st \<and> status st' = status st
           \<and> cursor st' = c \<and> max_date st' = max_date st
           \<and> processed_chats st' = processed_chats st
           \<and> customers w' = customers w \<and> deals w' = deals w \<and> messages w' = messages w
           \<and> customer_seq w' = customer_seq w \<and> deal_seq w' = deal_seq w
           \<and> api_calls w' = api_calls w \<and> cache w' = cache w
           \<and> trace w' = trace w @ [StateUpdate (state_id st) [F_cursor, F_updated_at]]"
  using state_save_row [OF assms, of "st\<lparr>cursor := c\<rparr>" "[F_cursor, F_updated_at]"]
  by (auto simp: save_cursor_def)

lemma cutoff_passed:
  "\<not> too_old st chat \<Longrightarrow>
   (case max_date st of None \<Rightarrow> Inr False
    | Some d \<Rightarrow> lt_aware (created_at (last_message chat)) d) = Inr False"
  by (simp add: too_old_def split: option.splits)

lemma process_chat_too_old:
  "too_old st chat \<Longrightarrow> process_chat env chat st w = (cutoff_result st, st, w)"
  by (auto simp: process_chat_def too_old_def cutoff_result_def lt_aware_def
      split: option.splits pydatetime.splits)

lemma process_chat_unchanged:
  "\<not> too_old st chat \<Longrightarrow> deal_filter_first (chat_external_id chat) w = (ex, w1)
   \<Longrightarrow> unchanged ex chat \<Longrightarrow> process_chat env chat st w = (Inr True, st, w1)"
  by (simp add: process_chat_def cutoff_passed unchanged_def)

lemma process_chat_synced:
  "\<not> too_old st chat \<Longrightarrow> deal_filter_first (chat_external_id chat) w = (ex, w1)
   \<Longrightarrow> \<not> unchanged ex chat \<Longrightarrow> sync_chat_atomic env chat ex w1 = (Inr u, w2)
   \<Longrightarrow> increment_processed st w2 = (Inr u', st3, w3)
   \<Longrightarrow> process_chat env chat st w = (Inr False, st3, w3)"
  by (simp add: process_chat_def cutoff_passed unchanged_def)

lemma process_chat_failed_new:
  "\<not> too_old st chat \<Longrightarrow> deal_filter_first (chat_external_id chat) w = (None, w1)
   \<Longrightarrow> sync_chat_atomic env chat None w1 = (Inl e, w2)
   \<Longrightarrow> process_chat env chat st w = (Inr False, st, w2)"
  by (simp add: process_chat_def cutoff_passed)

lemma process_chat_failed_existing:
  "\<not> too_old st chat \<Longrightarrow> deal_filter_first (chat_external_id chat) w = (Some d, w1)
   \<Longrightarrow> \<not> unchanged (Some d) chat \<Longrightarrow> sync_chat_atomic env chat (Some d) w1 = (Inl e, w2)
   \<Longrightarrow> deal_save [F_sync_status, F_deal_updated_at] (d\<lparr>sync_status := FAILED\<rparr>) w2 = (rs, w4)
   \<Longrightarrow> process_chat env chat st w = (case rs of Inl e' \<Rightarrow> Inl e' | Inr _ \<Rightarrow> Inr False, st, w4)"
  by (simp add: process_chat_def cutoff_passed unchanged_def split: sum.split)

lemma process_chat_state:
  assumes "st \<in> set (sync_states w)" and "process_chat env chat st w = (r, st', w')"
  shows "st' \<in> set (sync_states w') \<and> same_run st st' \<and> api_calls w' = api_calls w
         \<and> cache w' = cache w"
proof (cases "too_old st chat")
  case True
  then show ?thesis using assms by (simp add: process_chat_too_old)
next
  case False
  obtain ex w1 where q: "deal_filter_first (chat_external_id chat) w = (ex, w1)"
    by fastforce
  note u1 = untouched_deal_filter_first [OF q]
  show ?thesis
  proof (cases "unchanged ex chat")
    case True
    then show ?thesis
      using assms u1 by (simp add: process_chat_unchanged [OF False q] untouched_def)
  next
    case nc: False
    obtain ra w2 where a: "sync_chat_atomic env chat ex w1 = (ra, w2)"
      by fastforce
    note u2 = untouched_trans [OF u1 untouched_sync_chat_atomic [OF a]]
    then have m2: "st \<in> set (sync_states w2)"
      using assms(1) by (simp add: untouched_def)
    show ?thesis
    proof (cases ra)
      case (Inr u)
      obtain st3 w3 where i: "increment_processed st w2 = (Inr (), st3, w3)"
        "st3 \<in> set (sync_states w3)" "same_run st st3" "api_calls w3 = api_calls w2"
        "cache w3 = cache w2"
        using increment_processed_ok [OF m2] by blast
      have "process_chat env chat st w = (Inr False, st3, w3)"
        using process_chat_synced [OF False q nc a [unfolded Inr] i(1)] .
      then show ?thesis
        using assms(2) i u2 by (simp add: untouched_def)
    next
      case (Inl e)
      show ?thesis
      proof (cases ex)
        case None
        have "process_chat env chat st w = (Inr False, st, w2)"
          using process_chat_failed_new [OF False q [unfolded None] a [unfolded None Inl]] .
        then show ?thesis
          using assms(2) u2 m2 by (simp add: untouched_def)
      next
        case (Some d)
        obtain rs w4 where s: "deal_save [F_sync_status, F_deal_updated_at] (d\<lparr>sync_status := FAILED\<rparr>) w2 = (rs, w4)"
          by fastforce
        note u4 = untouched_trans [OF u2 untouched_deal_save [OF s]]
        have "process_chat env chat st w
              = (case rs of Inl e' \<Rightarrow> Inl e' | Inr _ \<Rightarrow> Inr False, st, w4)"
          using process_chat_failed_existing [OF False q [unfolded Some] nc [unfolded Some]
              a [unfolded Some Inl] s] .
        then show ?thesis
          using assms u4 by (simp add: untouched_def)
      qed
    qed
  qed
qed

lemma process_page_state:
  assumes "st \<in> set (sync_states w)" and "process_page env cs st w = (r, st', w')"
  shows "st' \<in> set (sync_states w') \<and> same_run st st' \<and> api_calls w' = api_calls w
         \<and> cache w' = cache w"
  using assms
proof (induction cs arbitrary: st w)
  case Nil
  then show ?case by simp
next
  case (Cons c cs)
  obtain r1 st1 w1 where p: "process_chat env c st w = (r1, st1, w1)"
    using prod_cases3 by blast
  note s1 = process_chat_state [OF Cons.prems(1) p]
  show ?case
  proof (cases r1)
    case (Inl e)
    then show ?thesis using Cons.prems(2) p s1 by simp
  next
    case (Inr stop)
    show ?thesis
    proof (cases stop)
      case True
      then show ?thesis using Cons.prems(2) p s1 Inr by simp
    next
      case False
      then have "process_page env cs st1 w1 = (r, st', w')"
        using Cons.prems(2) p Inr by simp
      from Cons.IH [OF _ this] s1 show ?thesis
        by (simp add: same_run_def)
    qed
  qed
qed

lemma process_page_stop_on_old:
  assumes "process_page env pre st w = (Inr False, st1, w1)" and "too_old st1 chat"
  shows "process_page env (pre @ chat # rest) st w = (cutoff_result st1, st1, w1)"
  using assms
proof (induction pre arbitrary: st w)
  case Nil
  then show ?case
    by (auto simp: process_chat_too_old cutoff_result_def split: option.splits pydatetime.splits)
next
  case (Cons c cs)
  then show ?case
    by (auto split: prod.splits sum.splits if_splits)
qed

lemma api_client_get_chats_eq:
  "api_client_get_chats env c w = (api_get_chats env (api_calls w) c, fetched c w)"
  by (simp add: api_client_get_chats_def fetched_def)

lemma fetched_simps [simp]:
  "customers (fetched c w) = customers w" "deals (fetched c w) = deals w"
  "sync_states (fetched c w) = sync_states w" "messages (fetched c w) = messages w"
  "cache (fetched c w) = cache w" "api_calls (fetched c w) = Suc (api_calls w)"
  "trace (fetched c w) = trace w @ [Fetch c]"
  "customer_seq (fetched c w) = customer_seq w" "deal_seq (fetched c w) = deal_seq w"
  by (simp_all add: fetched_def)

lemma page_cursor_saved:
  assumes "st1 \<in> set (sync_states w1)"
  shows "\<exists>st' w'. (case next_cursor page of
                     None \<Rightarrow> (Inr (), st1, w1)
                   | Some nc \<Rightarrow> if nc \<noteq> [] then save_cursor nc st1 w1 else (Inr (), st1, w1))
                  = (Inr (), st', w')
           \<and> st' \<in> set (sync_states w') \<and> state_id st' = state_id st1
           \<and> task_id st' = task_id st1 \<and> status st' = status st1
           \<and> cursor st' = (case next_cursor page of None \<Rightarrow> cursor st1
                             | Some nc \<Rightarrow> if nc \<noteq> [] then nc else cursor st1)
           \<and> max_date st' = max_date st1 \<and> processed_chats st' = processed_chats st1
           \<and> customers w' = customers w1 \<and> deals w' = deals w1 \<and> messages w' = messages w1
           \<and> customer_seq w' = customer_seq w1 \<and> deal_seq w' = deal_seq w1
           \<and> api_calls w' = api_calls w1 \<and> cache w' = cache w1
           \<and> trace w' = trace w1 @ cursor_ops page st1"
proof (cases "next_cursor page")
  case None
  then show ?thesis using assms by (simp add: cursor_ops_def)
next
  case (Some nc)
  show ?thesis
  proof (cases "nc = []")
    case True
    then show ?thesis using assms Some by (simp add: cursor_ops_def)
  next
    case False
    then show ?thesis
      using save_cursor_ok [OF assms, of nc] Some by (simp add: cursor_ops_def)
  qed
qed

lemma run_loop_stops:
  assumes f: "api_get_chats env (api_calls w) c = Inr page"
    and p: "process_page env (chats page) st (fetched c w) = (Inr stop, st1, w1)"
    and e: "stop \<or> \<not> has_more page"
    and m: "st \<in> set (sync_states w)"
  shows "\<exists>st' w'. run_loop (Suc n) env c st w = Some (Inr (), st', w')
           \<and> st' \<in> set (sync_states w') \<and> state_id st' = state_id st1
           \<and> task_id st' = task_id st1 \<and> status st' = status st1
           \<and> max_date st' = max_date st1 \<and> processed_chats st' = processed_chats st1
           \<and> customers w' = customers w1 \<and> deals w' = deals w1 \<and> messages w' = messages w1
           \<and> customer_seq w' = customer_seq w1 \<and> deal_seq w' = deal_seq w1
           \<and> api_calls w' = Suc (api_calls w) \<and> cache w' = cache w
           \<and> trace w' = trace w1 @ cursor_ops page st1"
proof -
  have "st \<in> set (sync_states (fetched c w))"
    using m by simp
  from process_page_state [OF this p]
  have s1: "st1 \<in> set (sync_states w1)" "api_calls w1 = Suc (api_calls w)" "cache w1 = cache w"
    by simp_all
  from page_cursor_saved [OF s1(1), of page] obtain st' w' where
    c: "(case next_cursor page of
           None \<Rightarrow> (Inr (), st1, w1)
         | Some nc \<Rightarrow> if nc \<noteq> [] then save_cursor nc st1 w1 else (Inr (), st1, w1))
        = (Inr (), st', w')"
    and r: "st' \<in> set (sync_states w')" "state_id st' = state_id st1"
      "task_id st' = task_id st1" "status st' = status st1"
      "max_date st' = max_date st1" "processed_chats st' = processed_chats st1"
      "customers w' = customers w1" "deals w' = deals w1" "messages w' = messages w1"
      "customer_seq w' = customer_seq w1" "deal_seq w' = deal_seq w1"
      "api_calls w' = api_calls w1" "cache w' = cache w1"
      "trace w' = trace w1 @ cursor_ops page st1"
    by blast
  have "run_loop (Suc n) env c st w = Some (Inr (), st', w')"
    using f p e c by (simp add: api_client_get_chats_eq)
  then show ?thesis
    using r s1 by simp
qed

lemma run_loop_continues:
  assumes f: "api_get_chats env (api_calls w) c = Inr page"
    and p: "process_page env (chats page) st (fetched c w) = (Inr False, st1, w1)"
    and e: "has_more page"
    and s: "(case next_cursor page of
               None \<Rightarrow> (Inr (), st1, w1)
             | Some nc \<Rightarrow> if nc \<noteq> [] then save_cursor nc st1 w1 else (Inr (), st1, w1))
            = (Inr (), st2, w2)"
  shows "run_loop (Suc n) env c st w = run_loop n env (next_cursor page) st2 w2"
  using f p e s by (simp add: api_client_get_chats_eq)

lemma first_order_by_desc_None [simp]: "first (order_by_desc k xs) = None \<longleftrightarrow> xs = []"
proof -
  have "length (order_by_desc k xs) = length xs"
    by (simp add: order_by_desc_def)
  then show ?thesis
    by (cases "order_by_desc k xs") (auto simp: first_def)
qed

lemma state_filter_incomplete_first_none:
  "filter incomplete (sync_states w) = [] \<Longrightarrow> state_filter_incomplete_first w = (None, log StateSelect w)"
  by (simp add: state_filter_incomplete_first_def)

lemma status_save_ok:
  assumes "st \<in> set (sync_states w)"
  shows "\<exists>st' w'. state_save [F_status, F_updated_at] (st\<lparr>status := s\<rparr>) w = (Inr (), st', w')
           \<and> st' \<in> set (sync_states w') \<and> state_id st' = state_id st
           \<and> task_id st' = task_id st \<and> status st' = s \<and> cursor st' = cursor st
           \<and> max_date st' = max_date st \<and> processed_chats st' = processed_chats st
           \<and> customers w' = customers w \<and> deals w' = deals w \<and> messages w' = messages w
           \<and> customer_seq w' = customer_seq w \<and> deal_seq w' = deal_seq w
           \<and> api_calls w' = api_calls w \<and> cache w' = cache w
           \<and> trace w' = trace w @ [StateUpdate (state_id st) [F_status, F_updated_at]]"
  using state_save_row [OF assms, of "st\<lparr>status := s\<rparr>" "[F_status, F_updated_at]"]
  by auto

lemma task_start_fresh:
  assumes "cache w SYNC_LOCK_KEY = None" and "filter incomplete (sync_states w) = []"
    and "rid \<notin> task_id ` set (sync_states w)"
  shows "\<exists>st w3. st \<in> set (sync_states w3) \<and> state_id st = sync_state_seq w
           \<and> task_id st = rid \<and> status st = Status_RUNNING
           \<and> cursor st = [] \<and> max_date st = None \<and> processed_chats st = 0
           \<and> customers w3 = customers w \<and> deals w3 = deals w \<and> messages w3 = messages w
           \<and> customer_seq w3 = customer_seq w \<and> deal_seq w3 = deal_seq w
           \<and> api_calls w3 = api_calls w \<and> cache w3 = (cache w)(SYNC_LOCK_KEY \<mapsto> rid)
           \<and> trace w3 = trace w @ [CacheAdd SYNC_LOCK_KEY True, StateSelect,
                                    StateInsert (sync_state_seq w),
                                    StateUpdate (sync_state_seq w) [F_status, F_updated_at]]
           \<and> (\<forall>fuel. sync_chats_task fuel env rid None w =
                (case run fuel env st w3 of
                   None \<Rightarrow> None
                 | Some (Inl e, st4, w4) \<Rightarrow> Some (task_failed env e st4 w4)
                 | Some (Inr _, st4, w4) \<Rightarrow>
                     (case state_save [F_status, F_updated_at] (st4\<lparr>status := Status_COMPLETED\<rparr>) w4 of
                        (Inl e, st5, w5) \<Rightarrow> Some (task_failed env e st5 w5)
                      | (Inr _, st5, w5) \<Rightarrow>
                          Some (Completed (processed_chats st5) (task_id st5),
                                cache_delete SYNC_LOCK_KEY w5))))"
proof -
  define w1 where "w1 = w\<lparr>cache := (cache w)(SYNC_LOCK_KEY \<mapsto> rid),
                           trace := trace w @ [CacheAdd SYNC_LOCK_KEY True]\<rparr>"
  define s0 where "s0 = \<lparr>state_id = sync_state_seq w, task_id = rid, status = Status_PENDING,
     cursor = [], max_date = None, processed_chats = 0, error_message = [],
     started_at = now w, updated_at = now w\<rparr>"
  define w2 where "w2 = w1\<lparr>sync_states := sync_states w @ [s0],
     sync_state_seq := Suc (sync_state_seq w), now := now w + 1,
     trace := trace w @ [CacheAdd SYNC_LOCK_KEY True, StateSelect, StateInsert (sync_state_seq w)]\<rparr>"
  have l: "cache_add SYNC_LOCK_KEY rid w = (True, w1)"
    using assms(1) by (simp add: cache_add_def w1_def)
  have g: "get_or_create_sync_state env rid None w1 = (Inr s0, w2)"
    using assms(2,3)
    by (simp add: get_or_create_sync_state_def state_filter_incomplete_first_none w1_def
        state_create_def log_def Let_def s0_def w2_def)
  have m: "s0 \<in> set (sync_states w2)"
    by (simp add: w2_def)
  from status_save_ok [OF m, of Status_RUNNING] obtain st w3 where
    s: "state_save [F_status, F_updated_at] (s0\<lparr>status := Status_RUNNING\<rparr>) w2 = (Inr (), st, w3)"
    and r: "st \<in> set (sync_states w3)" "state_id st = state_id s0"
      "task_id st = task_id s0" "status st = Status_RUNNING" "cursor st = cursor s0"
      "max_date st = max_date s0" "processed_chats st = processed_chats s0"
      "customers w3 = customers w2" "deals w3 = deals w2" "messages w3 = messages w2"
      "customer_seq w3 = customer_seq w2" "deal_seq w3 = deal_seq w2"
      "api_calls w3 = api_calls w2" "cache w3 = cache w2"
      "trace w3 = trace w2 @ [StateUpdate (state_id s0) [F_status, F_updated_at]]"
    by blast
  have t: "sync_chats_task fuel env rid None w =
      (case run fuel env st w3 of
         None \<Rightarrow> None
       | Some (Inl e, st4, w4) \<Rightarrow> Some (task_failed env e st4 w4)
       | Some (Inr _, st4, w4) \<Rightarrow>
           (case state_save [F_status, F_updated_at] (st4\<lparr>status := Status_COMPLETED\<rparr>) w4 of
              (Inl e, st5, w5) \<Rightarrow> Some (task_failed env e st5 w5)
            | (Inr _, st5, w5) \<Rightarrow>
                Some (Completed (processed_chats st5) (task_id st5),
                      cache_delete SYNC_LOCK_KEY w5)))" for fuel
    by (simp add: sync_chats_task_def l g s)
  show ?thesis
    using r t by (intro exI [of _ st] exI [of _ w3]) (simp add: s0_def w2_def w1_def)
qed

lemma task_finish:
  assumes "st4 \<in> set (sync_states w4)"
  shows "\<exists>st5 w'.
           (case state_save [F_status, F_updated_at] (st4\<lparr>status := Status_COMPLETED\<rparr>) w4 of
              (Inl e, st5, w5) \<Rightarrow> Some (task_failed env e st5 w5)
            | (Inr _, st5, w5) \<Rightarrow>
                Some (Completed (processed_chats st5) (task_id st5), cache_delete SYNC_LOCK_KEY w5))
           = Some (Completed (processed_chats st4) (task_id st4), w')
           \<and> st5 \<in> set (sync_states w') \<and> status st5 = Status_COMPLETED
           \<and> processed_chats st5 = processed_chats st4 \<and> task_id st5 = task_id st4
           \<and> state_id st5 = state_id st4
           \<and> customers w' = customers w4 \<and> deals w' = deals w4 \<and> messages w' = messages w4
           \<and> cache w' = (cache w4)(SYNC_LOCK_KEY := None)
           \<and> trace w' = trace w4 @ [StateUpdate (state_id st4) [F_status, F_updated_at],
                                     CacheDelete SYNC_LOCK_KEY]"
proof -
  from status_save_ok [OF assms, of Status_COMPLETED] obtain st5 w5 where
    s: "state_save [F_status, F_updated_at] (st4\<lparr>status := Status_COMPLETED\<rparr>) w4 = (Inr (), st5, w5)"
    and r: "st5 \<in> set (sync_states w5)" "state_id st5 = state_id st4"
      "task_id st5 = task_id st4" "status st5 = Status_COMPLETED"
      "processed_chats st5 = processed_chats st4"
      "customers w5 = customers w4" "deals w5 = deals w4" "messages w5 = messages w4"
      "cache w5 = cache w4"
      "trace w5 = trace w4 @ [StateUpdate (state_id st4) [F_status, F_updated_at]]"
    by blast
  show ?thesis
    using r by (intro exI [of _ st5] exI [of _ "cache_delete SYNC_LOCK_KEY w5"])
      (simp add: s cache_delete_def)
qed

lemma deal_filter_first_deals:
  "deals w1 = deals w \<Longrightarrow> fst (deal_filter_first eid w1) = fst (deal_filter_first eid w)"
  by (simp add: deal_filter_first_def)

lemma deal_filter_first_snd: "snd (deal_filter_first eid w) = log DealSelect w"
  by (simp add: deal_filter_first_def)

lemma process_page_unchanged_first:
  assumes "\<not> too_old st chat" and "fst (deal_filter_first (chat_external_id chat) w) = Some d"
    and "last_message_id d = message_id (last_message chat)"
  shows "process_page env (chat # rest) st w = (Inr True, st, log DealSelect w)"
proof -
  have q: "deal_filter_first (chat_external_id chat) w = (Some d, log DealSelect w)"
    using assms(2) deal_filter_first_snd [of "chat_external_id chat" w]
    by (metis prod.collapse)
  have "unchanged (Some d) chat"
    using assms(3) by (simp add: unchanged_def)
  from process_chat_unchanged [OF assms(1) q this] show ?thesis
    by simp
qed

lemma log_simps [simp]:
  "customers (log e w) = customers w" "deals (log e w) = deals w"
  "sync_states (log e w) = sync_states w" "messages (log e w) = messages w"
  "cache (log e w) = cache w" "api_calls (log e w) = api_calls w"
  "trace (log e w) = trace w @ [e]"
  "customer_seq (log e w) = customer_seq w" "deal_seq (log e w) = deal_seq w"
  by (simp_all add: log_def)

lemma store_write_cursor_ops [simp]: "filter store_write (cursor_ops page st) = []"
  by (simp add: cursor_ops_def split: option.split)

text \<open>
  C5. A second invocation against an unchanged source: the lock is free, no run is
  incomplete, and the first record of the first page has an entity whose
  \<open>last_message_id\<close> is the record's message id. The run stops at that record and the
  invocation completes with processed count 0 (in the result and in the run's row): the
  deals and customers tables and the message store are as before (so no entity is
  duplicated and no \<open>total_messages\<close> has changed), and the log gained no write to either
  store.
\<close>

theorem idempotent_rerun:
  assumes lock: "cache w SYNC_LOCK_KEY = None"
    and none: "filter incomplete (sync_states w) = []"
    and new: "request_id \<notin> task_id ` set (sync_states w)"
    and page: "api_get_chats env (api_calls w) None = Inr page"
    and cs: "chats page = chat # rest"
    and ex: "fst (deal_filter_first (chat_external_id chat) w) = Some d"
    and same: "last_message_id d = message_id (last_message chat)"
  shows "\<exists>w'. sync_chats_task (Suc n) env request_id None w = Some (Completed 0 request_id, w')
           \<and> deals w' = deals w \<and> customers w' = customers w \<and> messages w' = messages w
           \<and> filter store_write (trace w') = filter store_write (trace w)
           \<and> (\<exists>s \<in> set (sync_states w'). task_id s = request_id \<and> processed_chats s = 0
                 \<and> status s = Status_COMPLETED)"
proof -
  from task_start_fresh [OF lock none new, of env] obtain st w3 where
    a: "st \<in> set (sync_states w3)" "task_id st = request_id"
      "cursor st = []" "max_date st = None" "processed_chats st = 0"
      "customers w3 = customers w" "deals w3 = deals w" "messages w3 = messages w"
      "api_calls w3 = api_calls w"
      "trace w3 = trace w @ [CacheAdd SYNC_LOCK_KEY True, StateSelect,
                             StateInsert (sync_state_seq w),
                             StateUpdate (sync_state_seq w) [F_status, F_updated_at]]"
    and t: "\<And>fuel. sync_chats_task fuel env request_id None w =
       (case run fuel env st w3 of
          None \<Rightarrow> None
        | Some (Inl e, st4, w4) \<Rightarrow> Some (task_failed env e st4 w4)
        | Some (Inr _, st4, w4) \<Rightarrow>
            (case state_save [F_status, F_updated_at] (st4\<lparr>status := Status_COMPLETED\<rparr>) w4 of
               (Inl e, st5, w5) \<Rightarrow> Some (task_failed env e st5 w5)
             | (Inr _, st5, w5) \<Rightarrow>
                 Some (Completed (processed_chats st5) (task_id st5),
                       cache_delete SYNC_LOCK_KEY w5)))"
    by blast
  have old: "\<not> too_old st chat"
    using a(4) by (simp add: too_old_def)
  have "fst (deal_filter_first (chat_external_id chat) (fetched None w3)) = Some d"
    using ex deal_filter_first_deals [of "fetched None w3" w] a(7) by simp
  from process_page_unchanged_first [OF old this same, of env rest]
  have p: "process_page env (chats page) st (fetched None w3)
           = (Inr True, st, log DealSelect (fetched None w3))"
    using cs by simp
  have f: "api_get_chats env (api_calls w3) None = Inr page"
    using page a(9) by simp
  from run_loop_stops [OF f p _ a(1), of n] obtain st4 w4 where
    r: "run_loop (Suc n) env None st w3 = Some (Inr (), st4, w4)"
      "st4 \<in> set (sync_states w4)" "task_id st4 = task_id st"
      "processed_chats st4 = processed_chats st"
      "customers w4 = customers (log DealSelect (fetched None w3))"
      "deals w4 = deals (log DealSelect (fetched None w3))"
      "messages w4 = messages (log DealSelect (fetched None w3))"
      "trace w4 = trace (log DealSelect (fetched None w3)) @ cursor_ops page st"
    by auto
  have run: "run (Suc n) env st w3 = Some (Inr (), st4, w4)"
    using r(1) a(3) by (simp add: run_def)
  from task_finish [OF r(2), of env] obtain st5 w' where
    e: "(case state_save [F_status, F_updated_at] (st4\<lparr>status := Status_COMPLETED\<rparr>) w4 of
           (Inl e, st5, w5) \<Rightarrow> Some (task_failed env e st5 w5)
         | (Inr _, st5, w5) \<Rightarrow>
             Some (Completed (processed_chats st5) (task_id st5), cache_delete SYNC_LOCK_KEY w5))
        = Some (Completed (processed_chats st4) (task_id st4), w')"
      "st5 \<in> set (sync_states w')" "status st5 = Status_COMPLETED"
      "processed_chats st5 = processed_chats st4" "task_id st5 = task_id st4"
      "customers w' = customers w4" "deals w' = deals w4" "messages w' = messages w4"
      "trace w' = trace w4 @ [StateUpdate (state_id st4) [F_status, F_updated_at],
                              CacheDelete SYNC_LOCK_KEY]"
    by blast
  have res: "sync_chats_task (Suc n) env request_id None w = Some (Completed 0 request_id, w')"
    using t [of "Suc n"] run e(1) r(3,4) a(2,5) by simp
  have tr: "filter store_write (trace w') = filter store_write (trace w)"
    using e(9) r(8) a(10) by simp
  have row: "\<exists>s \<in> set (sync_states w'). task_id s = request_id \<and> processed_chats s = 0
                 \<and> status s = Status_COMPLETED"
    using e(2-5) r(3,4) a(2,5) by (intro bexI [of _ st5]) simp_all
  show ?thesis
    using res tr row e(6-8) r(5-7) a(6-8) by simp
qed

theorem idempotent_rerun_witness:
  "\<exists>w'. sync_chats_task (Suc 0) (quiet_env (one_page [chat_at 100])) ''task-2'' None synced
           = Some (Completed 0 ''task-2'', w')
         \<and> deals w' = [synced_deal] \<and> customers w' = [synced_customer]
         \<and> messages w' = messages synced
         \<and> filter store_write (trace w') = []"
proof -
  let ?env = "quiet_env (one_page [chat_at 100])"
  let ?page = "\<lparr>chats = [chat_at 100], next_cursor = None, has_more = False\<rparr>"
  have h: "cache synced SYNC_LOCK_KEY = None" "filter incomplete (sync_states synced) = []"
    "''task-2'' \<notin> task_id ` set (sync_states synced)"
    "api_get_chats ?env (api_calls synced) None = Inr ?page"
    "chats ?page = chat_at 100 # []"
    "fst (deal_filter_first (chat_external_id (chat_at 100)) synced) = Some synced_deal"
    "last_message_id synced_deal = message_id (last_message (chat_at 100))"
    by (simp_all add: synced_def fresh_def incomplete_def run_state_def quiet_env_def
        one_page_def chat_at_def synced_deal_def deal_filter_first_def order_by_desc_def
        first_def)
  from idempotent_rerun [OF h, of 0] obtain w' where
    r: "sync_chats_task (Suc 0) ?env ''task-2'' None synced = Some (Completed 0 ''task-2'', w')"
      "deals w' = deals synced" "customers w' = customers synced" "messages w' = messages synced"
      "filter store_write (trace w') = filter store_write (trace synced)"
    by blast
  have "deals w' = [synced_deal]" "customers w' = [synced_customer]"
    "filter store_write (trace w') = []"
    using r(2,3,5) by (simp_all add: synced_def fresh_def)
  with r(1,4) show ?thesis
    by blast
qed

lemma others_kept_refl [simp]: "others_kept k w w"
  by (simp add: others_kept_def)



lemma fold_state_copy_id [simp]: "state_id (fold (state_copy obj) fs row) = state_id row"
proof (induction fs arbitrary: row)
  case Nil
  then show ?case by simp
next
  case (Cons f fs)
  then show ?case by (cases f) simp_all
qed









lemma distinct_key_filter_le_1:
  "distinct (map f xs) \<Longrightarrow> length (filter (\<lambda>x. f x = k) xs) \<le> 1"
proof (induction xs)
  case Nil
  then show ?case by simp
next
  case (Cons x xs)
  show ?case
  proof (cases "f x = k")
    case True
    then have "k \<notin> f ` set xs"
      using Cons.prems by simp
    then have "filter (\<lambda>x. f x = k) xs = []"
      by (simp add: filter_empty_conv image_iff) blast
    then show ?thesis
      using True by simp
  next
    case False
    then show ?thesis
      using Cons by simp
  qed
qed



lemma first_order_by_desc_Some:
  assumes "xs \<noteq> []"
  shows "\<exists>x \<in> set xs. first (order_by_desc k xs) = Some x"
proof (cases "order_by_desc k xs")
  case Nil
  then have "first (order_by_desc k xs) = None"
    by (simp add: first_def)
  then show ?thesis
    using assms by simp
next
  case (Cons y ys)
  have "y \<in> set (order_by_desc k xs)"
    unfolding Cons by simp
  then have "y \<in> set xs"
    by simp
  then show ?thesis
    using Cons by (simp add: first_def)
qed

lemma log_simps2 [simp]:
  "sync_state_seq (log e w) = sync_state_seq w" "now (log e w) = now w"
  by (simp_all add: log_def)







lemma others_kept_cache_delete [simp]: "others_kept k w (cache_delete key w)"
  by (simp add: others_kept_def cache_delete_def)





lemma cache_delete_states [simp]:
  "sync_states (cache_delete key w) = sync_states w"
  "sync_state_seq (cache_delete key w) = sync_state_seq w"
  by (simp_all add: cache_delete_def)





lemma sync_chat_atomic_rollback:
  assumes "sync_chat_atomic env chat ex w = (Inl e, w')"
  shows "customers w' = customers w \<and> deals w' = deals w \<and> sync_states w' = sync_states w"
  using assms
  by (auto simp: sync_chat_atomic_def rollback_to_def log_def split: prod.splits sum.splits)

lemma sync_chat_body_fault:
  assumes "fault env s chat"
  shows "\<exists>e w'. sync_chat_body env chat ex w = (Inl e, w')"
proof (cases "get_or_create_customer env chat w")
  case (Pair rc w1)
  show ?thesis
  proof (cases rc)
    case (Inl e)
    then show ?thesis using Pair by (simp add: sync_chat_body_def)
  next
    case c: (Inr customer)
    then have nc: "\<not> fault env CustomerStep chat"
      using Pair by (auto simp: get_or_create_customer_def)
    obtain rd w2 where d: "create_or_update_deal env chat customer ex w1 = (rd, w2)"
      by fastforce
    show ?thesis
    proof (cases rd)
      case (Inl e)
      then show ?thesis using Pair c d by (simp add: sync_chat_body_def)
    next
      case dl: (Inr deal)
      then have nd: "\<not> fault env DealStep chat"
        using d by (auto simp: create_or_update_deal_def)
      obtain rm w3 where m: "save_message_to_dynamodb env chat deal w2 = (rm, w3)"
        by fastforce
      show ?thesis
      proof (cases rm)
        case (Inl e)
        then show ?thesis using Pair c d dl m by (simp add: sync_chat_body_def)
      next
        case (Inr u)
        then have "\<not> fault env DocumentStep chat"
          using m by (auto simp: save_message_to_dynamodb_def)
        then have "fault env FinalizeStep chat"
          using assms nc nd by (cases s) simp_all
        then show ?thesis
          using Pair c d dl m Inr by (simp add: sync_chat_body_def)
      qed
    qed
  qed
qed

lemma sync_chat_atomic_fault:
  assumes "fault env s chat"
  shows "\<exists>e w'. sync_chat_atomic env chat ex w = (Inl e, w')"
proof -
  from sync_chat_body_fault [OF assms, of ex "log Begin w"] obtain e w1 where
    "sync_chat_body env chat ex (log Begin w) = (Inl e, w1)"
    by blast
  then show ?thesis
    by (simp add: sync_chat_atomic_def)
qed

lemma first_Some_mem: "first (order_by_desc k xs) = Some x \<Longrightarrow> x \<in> set xs"
  using first_order_by_desc_Some [of xs k] by (cases "xs = []") (auto simp: first_def order_by_desc_def)

lemma deal_filter_first_Some:
  assumes "deal_filter_first eid w = (Some d, w1)"
  shows "d \<in> set (deals w) \<and> deal_external_id d = eid \<and> w1 = log DealSelect w"
proof -
  have "first (order_by_desc last_message_at (filter (\<lambda>d. deal_external_id d = eid) (deals w))) = Some d"
    and "w1 = log DealSelect w"
    using assms by (simp_all add: deal_filter_first_def)
  then show ?thesis
    using first_Some_mem by fastforce
qed

lemma deal_filter_first_None:
  assumes "deal_filter_first eid w = (None, w1)"
  shows "filter (\<lambda>d. deal_external_id d = eid) (deals w) = [] \<and> w1 = log DealSelect w"
  using assms by (simp add: deal_filter_first_def)

lemma deal_save_failed:
  assumes "d \<in> set (deals w)"
  shows "deal_save [F_sync_status, F_deal_updated_at] (d\<lparr>sync_status := FAILED\<rparr>) w
         = (Inr (), w\<lparr>deals := mark_failed (deal_id d) (now w) (deals w), now := now w + 1,
                      trace := trace w @ [DealUpdate (deal_id d) [F_sync_status, F_deal_updated_at]]\<rparr>)"
  using assms by (simp add: deal_save_def mark_failed_def)

lemma failed_record_outcome:
  assumes old: "\<not> too_old st chat"
    and q: "deal_filter_first (chat_external_id chat) w = (ex, w1)"
    and nc: "\<not> unchanged ex chat"
    and a: "sync_chat_atomic env chat ex w1 = (Inl e, w2)"
  shows "customers w2 = customers w \<and> deals w2 = deals w
       \<and> (ex = None \<longrightarrow> process_chat env chat st w = (Inr False, st, w2))
       \<and> (\<forall>d. ex = Some d \<longrightarrow>
            (\<exists>w'. process_chat env chat st w = (Inr False, st, w') \<and> customers w' = customers w
               \<and> deals w' = mark_failed (deal_id d) (now w2) (deals w)))"
proof -
  have w1: "w1 = log DealSelect w"
    using q by (simp add: deal_filter_first_def)
  from sync_chat_atomic_rollback [OF a]
  have r: "customers w2 = customers w" "deals w2 = deals w"
    by (simp_all add: w1)
  have n: "process_chat env chat st w = (Inr False, st, w2)" if "ex = None"
    using process_chat_failed_new [OF old q [unfolded that] a [unfolded that]] .
  have s: "\<exists>w'. process_chat env chat st w = (Inr False, st, w') \<and> customers w' = customers w
               \<and> deals w' = mark_failed (deal_id d) (now w2) (deals w)" if "ex = Some d" for d
  proof -
    have "d \<in> set (deals w2)"
      using deal_filter_first_Some [OF q [unfolded that]] r by simp
    note sv = deal_save_failed [OF this]
    from process_chat_failed_existing [OF old q [unfolded that] nc [unfolded that]
        a [unfolded that] sv]
    show ?thesis
      using r by simp
  qed
  show ?thesis
    using r n s by blast
qed

text \<open>
  C10. Whenever \<open>_sync_chat_atomic\<close> raises for a record (it does as soon as one of its
  four steps raises, the write to the message store included), the customers and deals
  tables are again what they were before the record: the counterparty insertion and the
  entity insertion or update are undone together. If the record had no entity row
  (\<open>ex = None\<close>), \<open>_process_chat\<close> writes nothing more, so there is still none; if it had
  one, the only change to the deals table is that this row (one that existed before) has
  status FAILED and a new \<open>updated_at\<close>. The page loop goes on (\<open>Inr False\<close>).
\<close>

theorem failed_record_rolled_back:
  assumes "\<not> too_old st chat"
    and "deal_filter_first (chat_external_id chat) w = (ex, w1)"
    and "\<not> unchanged ex chat"
  shows "(fault env s chat \<longrightarrow> (\<exists>e w2. sync_chat_atomic env chat ex w1 = (Inl e, w2)))
       \<and> (sync_chat_atomic env chat ex w1 = (Inl e, w2) \<longrightarrow>
            customers w2 = customers w \<and> deals w2 = deals w
            \<and> (ex = None \<longrightarrow> process_chat env chat st w = (Inr False, st, w2))
            \<and> (\<forall>d. ex = Some d \<longrightarrow>
                 (\<exists>w'. process_chat env chat st w = (Inr False, st, w')
                    \<and> customers w' = customers w
                    \<and> deals w' = mark_failed (deal_id d) (now w2) (deals w))))"
  using sync_chat_atomic_fault [of env s chat ex w1]
    failed_record_outcome [OF assms, of env e w2]
  by blast

theorem failed_record_rolled_back_witness:
  "(\<exists>e w2. sync_chat_atomic doc_store_down (chat_at 100) None (log DealSelect fresh) = (Inl e, w2)
       \<and> customers w2 = [] \<and> deals w2 = []
       \<and> process_chat doc_store_down (chat_at 100) (run_state None) fresh
           = (Inr False, run_state None, w2))
   \<and> (\<exists>e w2 w'. sync_chat_atomic doc_store_down chat_newer (Some synced_deal) (log DealSelect synced)
           = (Inl e, w2)
       \<and> process_chat doc_store_down chat_newer (run_state None) synced
           = (Inr False, run_state None, w')
       \<and> customers w' = [synced_customer]
       \<and> deals w' = [synced_deal\<lparr>sync_status := FAILED, deal_updated_at := now w2\<rparr>])"
proof -
  have old: "\<not> too_old (run_state None) (chat_at 100)" "\<not> too_old (run_state None) chat_newer"
    by (simp_all add: too_old_def run_state_def)
  have f: "fault doc_store_down DocumentStep (chat_at 100)" "fault doc_store_down DocumentStep chat_newer"
    by (simp_all add: doc_store_down_def)
  have q1: "deal_filter_first (chat_external_id (chat_at 100)) fresh = (None, log DealSelect fresh)"
    by (simp add: deal_filter_first_def fresh_def first_def order_by_desc_def)
  have n1: "\<not> unchanged None (chat_at 100)"
    by (simp add: unchanged_def)
  have q2: "deal_filter_first (chat_external_id chat_newer) synced = (Some synced_deal, log DealSelect synced)"
    by (simp add: deal_filter_first_def synced_def fresh_def first_def order_by_desc_def
        chat_newer_def chat_at_def synced_deal_def)
  have n2: "\<not> unchanged (Some synced_deal) chat_newer"
    by (simp add: unchanged_def synced_deal_def chat_newer_def)
  note t1 = failed_record_rolled_back [OF old(1) q1 n1, of doc_store_down DocumentStep]
  from t1 [THEN conjunct1, rule_format, OF f(1)] obtain e1 v1 where
    a1: "sync_chat_atomic doc_store_down (chat_at 100) None (log DealSelect fresh) = (Inl e1, v1)"
    by blast
  from failed_record_rolled_back [OF old(1) q1 n1, of doc_store_down DocumentStep e1 v1,
      THEN conjunct2, rule_format, OF a1]
  have r1: "customers v1 = []" "deals v1 = []"
    "process_chat doc_store_down (chat_at 100) (run_state None) fresh = (Inr False, run_state None, v1)"
    by (simp_all add: fresh_def)
  note t2 = failed_record_rolled_back [OF old(2) q2 n2, of doc_store_down DocumentStep]
  from t2 [THEN conjunct1, rule_format, OF f(2)] obtain e2 v2 where
    a2: "sync_chat_atomic doc_store_down chat_newer (Some synced_deal) (log DealSelect synced) = (Inl e2, v2)"
    by blast
  from failed_record_rolled_back [OF old(2) q2 n2, of doc_store_down DocumentStep e2 v2,
      THEN conjunct2, rule_format, OF a2]
  obtain w' where r2: "process_chat doc_store_down chat_newer (run_state None) synced
           = (Inr False, run_state None, w')"
    "customers w' = customers synced"
    "deals w' = mark_failed (deal_id synced_deal) (now v2) (deals synced)"
    by blast
  have "customers w' = [synced_customer]"
    "deals w' = [synced_deal\<lparr>sync_status := FAILED, deal_updated_at := now v2\<rparr>]"
    using r2(2,3) by (simp_all add: synced_def fresh_def mark_failed_def)
  with a1 r1 a2 r2(1) show ?thesis
    by blast
qed



lemma customer_save_trace:
  "customer_save fs obj w = (r, w') \<Longrightarrow>
   \<exists>ops. trace w' = trace w @ ops \<and> list_all upsert_op ops"
  by (auto simp: customer_save_def split: if_splits)

lemma queue_avatar_upload_trace:
  "\<exists>ops. trace (queue_avatar_upload env c u w) = trace w @ ops \<and> list_all upsert_op ops"
proof -
  have "\<exists>ops. trace (snd (customer_save fs obj (upload_file k d ct w))) = trace w @ ops
          \<and> list_all upsert_op ops" for fs obj k d ct
    by (auto simp: customer_save_def upload_file_def)
  then show ?thesis
    by (auto simp: queue_avatar_upload_def Let_def split: option.split prod.split)
qed

lemma get_or_create_customer_trace:
  assumes "get_or_create_customer env chat w = (r, w')"
  shows "\<exists>ops. trace w' = trace w @ ops \<and> list_all upsert_op ops"
proof (cases "fault env CustomerStep chat")
  case True
  then show ?thesis using assms by (simp add: get_or_create_customer_def)
next
  case False
  obtain rc w1 where g: "customer_get_or_create (cc_external_id (chat_customer chat))
               (cc_name (chat_customer chat)) (cc_avatar_url (chat_customer chat)) w = (rc, w1)"
    by fastforce
  then have t1: "\<exists>ops. trace w1 = trace w @ ops \<and> list_all upsert_op ops"
    by (auto simp: customer_get_or_create_def Let_def log_def split: list.splits)
  show ?thesis
  proof (cases "\<exists>customer. rc = Inr (customer, True) \<and> cc_avatar_url (chat_customer chat) \<noteq> []")
    case True
    then obtain customer where rc: "rc = Inr (customer, True)"
      "cc_avatar_url (chat_customer chat) \<noteq> []"
      by blast
    then have "w' = queue_avatar_upload env customer (cc_avatar_url (chat_customer chat)) w1"
      using assms False g by (simp add: get_or_create_customer_def)
    with queue_avatar_upload_trace [of env customer "cc_avatar_url (chat_customer chat)" w1] t1
    show ?thesis
      by auto
  next
    case nq: False
    then have "w' = w1"
      using assms False g
      by (auto simp: get_or_create_customer_def split: sum.splits prod.splits if_splits)
    then show ?thesis
      using t1 by simp
  qed
qed

lemma create_or_update_deal_trace:
  assumes "create_or_update_deal env chat c ex w = (r, w')"
  shows "(\<exists>ops. trace w' = trace w @ ops \<and> list_all upsert_op ops)
         \<and> (\<forall>deal. r = Inr deal \<longrightarrow> deal_external_id deal = record_eid ex chat)"
  using assms
  by (auto simp: create_or_update_deal_def deal_save_def deal_create_def Let_def record_eid_def
      split: if_splits option.splits)

lemma save_message_to_dynamodb_trace:
  assumes "save_message_to_dynamodb env chat deal w = (r, w')"
  shows "(r = Inl MessageStoreError
            \<and> trace w' = trace w @ [DocPut (deal_external_id deal) (message_id (last_message chat)) False])
         \<or> (r = Inr ()
            \<and> trace w' = trace w @ [DocPut (deal_external_id deal) (message_id (last_message chat)) True])"
  using assms
  by (auto simp: save_message_to_dynamodb_def save_message_def log_def Let_def split: if_splits)

lemma deal_save_trace:
  assumes "deal_save fs obj w = (r, w')"
  shows "(r = Inl DatabaseError \<and> trace w' = trace w)
         \<or> (r = Inr () \<and> trace w' = trace w @ [DealUpdate (deal_id obj) fs])"
  using assms by (auto simp: deal_save_def split: if_splits)

lemma sync_chat_body_trace:
  assumes "sync_chat_body env chat ex w = (r, w')"
  shows "\<exists>pre post. trace w' = trace w @ pre @ post \<and> list_all upsert_op pre
           \<and> (post = [] \<and> isl r
              \<or> post = [DocPut (record_eid ex chat) (message_id (last_message chat)) False] \<and> isl r
              \<or> post = [DocPut (record_eid ex chat) (message_id (last_message chat)) True] \<and> isl r
              \<or> (\<exists>pk. post = [DocPut (record_eid ex chat) (message_id (last_message chat)) True,
                               DealUpdate pk finalize_fields]) \<and> r = Inr ())"
proof -
  obtain rc w1 where c: "get_or_create_customer env chat w = (rc, w1)"
    by fastforce
  from get_or_create_customer_trace [OF c] obtain ops1 where
    t1: "trace w1 = trace w @ ops1" "list_all upsert_op ops1"
    by blast
  show ?thesis
  proof (cases rc)
    case (Inl e)
    then have "r = Inl e" "w' = w1"
      using assms c by (simp_all add: sync_chat_body_def)
    then show ?thesis
      using t1 by (intro exI [of _ ops1] exI [of _ "[]"]) simp
  next
    case cu: (Inr customer)
    obtain rd w2 where d: "create_or_update_deal env chat customer ex w1 = (rd, w2)"
      by fastforce
    from create_or_update_deal_trace [OF d] obtain ops2 where
      t2: "trace w2 = trace w1 @ ops2" "list_all upsert_op ops2"
      and e2: "\<And>deal. rd = Inr deal \<Longrightarrow> deal_external_id deal = record_eid ex chat"
      by blast
    have p2: "trace w2 = trace w @ (ops1 @ ops2)" "list_all upsert_op (ops1 @ ops2)"
      using t1 t2 by simp_all
    show ?thesis
    proof (cases rd)
      case (Inl e)
      then have "r = Inl e" "w' = w2"
        using assms c cu d by (simp_all add: sync_chat_body_def)
      then show ?thesis
        using p2 by (intro exI [of _ "ops1 @ ops2"] exI [of _ "[]"]) simp
    next
      case dl: (Inr deal)
      note eid = e2 [OF dl]
      obtain rm w3 where m: "save_message_to_dynamodb env chat deal w2 = (rm, w3)"
        by fastforce
      from save_message_to_dynamodb_trace [OF m]
      consider (bad) "rm = Inl MessageStoreError"
          "trace w3 = trace w2 @ [DocPut (record_eid ex chat) (message_id (last_message chat)) False]"
        | (good) "rm = Inr ()"
          "trace w3 = trace w2 @ [DocPut (record_eid ex chat) (message_id (last_message chat)) True]"
        using eid by auto
      then show ?thesis
      proof cases
        case bad
        then have "r = Inl MessageStoreError" "w' = w3"
          using assms c cu d dl m by (simp_all add: sync_chat_body_def)
        then show ?thesis
          using p2 bad(2)
          by (intro exI [of _ "ops1 @ ops2"]
              exI [of _ "[DocPut (record_eid ex chat) (message_id (last_message chat)) False]"]) simp
      next
        case good
        show ?thesis
        proof (cases "fault env FinalizeStep chat")
          case True
          then have "r = Inl DatabaseError" "w' = w3"
            using assms c cu d dl m good by (simp_all add: sync_chat_body_def)
          then show ?thesis
            using p2 good(2)
            by (intro exI [of _ "ops1 @ ops2"]
                exI [of _ "[DocPut (record_eid ex chat) (message_id (last_message chat)) True]"]) simp
        next
          case False
          then have f: "deal_save finalize_fields
                  (deal\<lparr>sync_status := COMPLETE, total_messages := total_messages deal + 1\<rparr>) w3
                = (r, w')"
            using assms c cu d dl m good by (simp add: sync_chat_body_def finalize_fields_def)
          from deal_save_trace [OF f]
          consider (lost) "r = Inl DatabaseError" "trace w' = trace w3"
            | (saved) "r = Inr ()" "trace w' = trace w3 @ [DealUpdate (deal_id deal) finalize_fields]"
            by auto
          then show ?thesis
          proof cases
            case lost
            then show ?thesis
              using p2 good(2)
              by (intro exI [of _ "ops1 @ ops2"]
                  exI [of _ "[DocPut (record_eid ex chat) (message_id (last_message chat)) True]"])
                simp
          next
            case saved
            then show ?thesis
              using p2 good(2)
              by (intro exI [of _ "ops1 @ ops2"]
                  exI [of _ "[DocPut (record_eid ex chat) (message_id (last_message chat)) True,
                              DealUpdate (deal_id deal) finalize_fields]"])
                simp
          qed
        qed
      qed
    qed
  qed
qed

lemma sync_chat_atomic_trace:
  assumes "sync_chat_atomic env chat ex w = (r, w')"
  shows "\<exists>pre post. trace w' = trace w @ [Begin] @ pre @ post @ [if isl r then Rollback else Commit]
           \<and> list_all upsert_op pre
           \<and> (post = []
              \<or> post = [DocPut (record_eid ex chat) (message_id (last_message chat)) False]
              \<or> post = [DocPut (record_eid ex chat) (message_id (last_message chat)) True]
              \<or> (\<exists>pk. post = [DocPut (record_eid ex chat) (message_id (last_message chat)) True,
                               DealUpdate pk finalize_fields]))
           \<and> (r = Inr () \<longleftrightarrow>
                (\<exists>pk. post = [DocPut (record_eid ex chat) (message_id (last_message chat)) True,
                               DealUpdate pk finalize_fields]))
           \<and> (isl r \<longrightarrow> customers w' = customers w \<and> deals w' = deals w)"
proof -
  obtain rb w1 where b: "sync_chat_body env chat ex (log Begin w) = (rb, w1)"
    by fastforce
  from sync_chat_body_trace [OF b] obtain pre post where
    t: "trace w1 = trace (log Begin w) @ pre @ post" "list_all upsert_op pre"
    and sh: "post = [] \<and> isl rb
              \<or> post = [DocPut (record_eid ex chat) (message_id (last_message chat)) False] \<and> isl rb
              \<or> post = [DocPut (record_eid ex chat) (message_id (last_message chat)) True] \<and> isl rb
              \<or> (\<exists>pk. post = [DocPut (record_eid ex chat) (message_id (last_message chat)) True,
                               DealUpdate pk finalize_fields]) \<and> rb = Inr ()"
    by blast
  have r: "r = rb"
    using assms b by (cases rb) (simp_all add: sync_chat_atomic_def)
  have tr: "trace w' = trace w1 @ [if isl r then Rollback else Commit]"
    using assms b by (cases rb) (auto simp: sync_chat_atomic_def rollback_to_def log_def)
  have rb: "isl r \<longrightarrow> customers w' = customers w \<and> deals w' = deals w"
    using assms sync_chat_atomic_rollback [of env chat ex w _ w'] by (cases r) simp_all
  have "trace w' = trace w @ [Begin] @ pre @ post @ [if isl r then Rollback else Commit]"
    using tr t(1) by simp
  moreover have "r = Inr () \<longleftrightarrow>
      (\<exists>pk. post = [DocPut (record_eid ex chat) (message_id (last_message chat)) True,
                     DealUpdate pk finalize_fields])"
    using sh r by (cases rb) auto
  ultimately show ?thesis
    using t(2) sh rb by blast
qed



lemma customers_grow_refl [simp]: "customers_grow w w"
  by (simp add: customers_grow_def)

lemma customers_grow_trans:
  "customers_grow w w1 \<Longrightarrow> customers_grow w1 w2 \<Longrightarrow> customers_grow w w2"
  by (auto simp: customers_grow_def)

lemma customers_same_grow:
  "customers w' = customers w \<Longrightarrow> customer_seq w' = customer_seq w \<Longrightarrow> customers_grow w w'"
  by (simp add: customers_grow_def customers_ok_def)

lemma fold_customer_copy_eid [simp]:
  "customer_external_id (fold (customer_copy t obj) fs row) = customer_external_id row"
proof (induction fs arbitrary: row)
  case Nil
  then show ?case by simp
next
  case (Cons f fs)
  then show ?case by (cases f) simp_all
qed

lemma fold_customer_copy_id [simp]:
  "customer_id (fold (customer_copy t obj) fs row) = customer_id row"
proof (induction fs arbitrary: row)
  case Nil
  then show ?case by simp
next
  case (Cons f fs)
  then show ?case by (cases f) simp_all
qed

lemma update_last_row:
  assumes "list_all (\<lambda>c. customer_id c < k) xs" and "customer_id c = k"
  shows "map (\<lambda>row. if customer_id row = k then g row else row) (xs @ [c]) = xs @ [g c]"
proof -
  have "map (\<lambda>row. if customer_id row = k then g row else row) xs = xs"
    using assms(1) by (induction xs) auto
  then show ?thesis
    using assms(2) by simp
qed

lemma customer_save_last:
  assumes "customers w = xs @ [c]" and "list_all (\<lambda>c. customer_id c < customer_id c0) xs"
    and "customer_id c = customer_id c0"
  shows "\<exists>c'. customers (snd (customer_save fs c0 w)) = xs @ [c']
           \<and> customer_external_id c' = customer_external_id c \<and> customer_id c' = customer_id c
           \<and> customer_seq (snd (customer_save fs c0 w)) = customer_seq w"
proof (cases "customer_id c0 \<in> customer_id ` set (customers w)")
  case True
  then show ?thesis
    using assms update_last_row [OF assms(2,3), of "fold (customer_copy (now w) c0) fs"]
    by (simp add: customer_save_def)
next
  case False
  then show ?thesis
    using assms by (simp add: customer_save_def)
qed

lemma queue_avatar_upload_cases:
  "queue_avatar_upload env c u w = w
   \<or> (\<exists>key d. queue_avatar_upload env c u w
          = snd (customer_save [F_avatar_s3_key, F_customer_updated_at] (c\<lparr>avatar_s3_key := key\<rparr>)
                   (upload_file key d ''image/jpeg'' w)))"
proof (cases "http_get env u")
  case None
  then show ?thesis by (simp add: queue_avatar_upload_def)
next
  case (Some p)
  obtain code d where p: "p = (code, d)"
    by fastforce
  show ?thesis
  proof (cases "code = 200 \<and> \<not> s3_upload_raises env (''avatars/'' @ customer_external_id c @ ''.jpg'')")
    case True
    then have "queue_avatar_upload env c u w
          = snd (customer_save [F_avatar_s3_key, F_customer_updated_at]
                   (c\<lparr>avatar_s3_key := ''avatars/'' @ customer_external_id c @ ''.jpg''\<rparr>)
                   (upload_file (''avatars/'' @ customer_external_id c @ ''.jpg'') d ''image/jpeg'' w))"
      using Some p by (simp add: queue_avatar_upload_def Let_def)
    then show ?thesis
      by blast
  next
    case False
    then have "queue_avatar_upload env c u w = w"
      using Some p by (auto simp: queue_avatar_upload_def Let_def)
    then show ?thesis
      by simp
  qed
qed

lemma queue_avatar_upload_last:
  assumes "customers w = xs @ [c]" and "list_all (\<lambda>x. customer_id x < customer_id c) xs"
  shows "\<exists>c'. customers (queue_avatar_upload env c u w) = xs @ [c']
           \<and> customer_external_id c' = customer_external_id c \<and> customer_id c' = customer_id c
           \<and> customer_seq (queue_avatar_upload env c u w) = customer_seq w"
proof -
  from queue_avatar_upload_cases [of env c u w]
  consider (same) "queue_avatar_upload env c u w = w"
    | (saved) key d where "queue_avatar_upload env c u w
          = snd (customer_save [F_avatar_s3_key, F_customer_updated_at] (c\<lparr>avatar_s3_key := key\<rparr>)
                   (upload_file key d ''image/jpeg'' w))"
    by blast
  then show ?thesis
  proof cases
    case same
    then show ?thesis
      using assms(1) by simp
  next
    case saved
    have up: "customers (upload_file key d ''image/jpeg'' w) = xs @ [c]"
      "customer_seq (upload_file key d ''image/jpeg'' w) = customer_seq w"
      using assms(1) by (simp_all add: upload_file_def)
    have a2: "list_all (\<lambda>x. customer_id x < customer_id (c\<lparr>avatar_s3_key := key\<rparr>)) xs"
      using assms(2) by simp
    have a3: "customer_id c = customer_id (c\<lparr>avatar_s3_key := key\<rparr>)"
      by simp
    from customer_save_last [OF up(1) a2 a3, of "[F_avatar_s3_key, F_customer_updated_at]"]
    show ?thesis
      unfolding saved using up(2) by simp
  qed
qed

lemma customers_ok_append:
  assumes "customers_ok w" and "customers w' = customers w @ [c]"
    and "customer_external_id c \<notin> customer_external_id ` set (customers w)"
    and "customer_id c = customer_seq w" and "customer_seq w' = Suc (customer_seq w)"
  shows "customers_ok w'"
  using assms by (auto simp: customers_ok_def list_all_iff less_Suc_eq)

lemma get_or_create_customer_grow:
  assumes "get_or_create_customer env chat w = (r, w')"
  shows "customers_grow w w'"
proof (cases "fault env CustomerStep chat")
  case True
  then show ?thesis using assms by (simp add: get_or_create_customer_def)
next
  case nf: False
  let ?eid = "cc_external_id (chat_customer chat)"
  let ?url = "cc_avatar_url (chat_customer chat)"
  show ?thesis
  proof (cases "filter (\<lambda>c. customer_external_id c = ?eid) (customers w) = []")
    case False
    then have "customers w' = customers w \<and> customer_seq w' = customer_seq w"
      using assms nf
      by (auto simp: get_or_create_customer_def customer_get_or_create_def log_def
          split: list.splits)
    then show ?thesis
      by (simp add: customers_same_grow)
  next
    case True
    define c where "c = \<lparr>customer_id = customer_seq w, customer_external_id = ?eid,
       customer_name = cc_name (chat_customer chat), avatar_url = ?url, avatar_s3_key = [],
       customer_created_at = now w, customer_updated_at = now w\<rparr>"
    define w1 where "w1 = w\<lparr>customers := customers w @ [c], customer_seq := Suc (customer_seq w),
       now := now w + 1, trace := trace w @ [CustomerSelect, CustomerInsert (customer_id c)]\<rparr>"
    have g: "customer_get_or_create ?eid (cc_name (chat_customer chat)) ?url w = (Inr (c, True), w1)"
      using True by (simp add: customer_get_or_create_def Let_def c_def w1_def)
    have new: "?eid \<notin> customer_external_id ` set (customers w)"
      using True by (auto simp: filter_empty_conv)
    have w': "w' = (if ?url \<noteq> [] then queue_avatar_upload env c ?url w1 else w1)"
      using assms nf g by (auto simp: get_or_create_customer_def)
    show ?thesis
      unfolding customers_grow_def
    proof (intro impI)
      assume ok: "customers_ok w"
      have l: "list_all (\<lambda>x. customer_id x < customer_id c) (customers w)"
        using ok by (simp add: customers_ok_def c_def)
      have c1: "customers w1 = customers w @ [c]"
        by (simp add: w1_def)
      obtain c' where c': "customers w' = customers w @ [c']"
        "customer_external_id c' = customer_external_id c" "customer_id c' = customer_id c"
        "customer_seq w' = customer_seq w1"
      proof (cases "?url = []")
        case True
        then show ?thesis using that [of c] w' c1 by simp
      next
        case False
        from queue_avatar_upload_last [OF c1 l, of env ?url] show ?thesis
          using that w' False by auto
      qed
      have "customers_ok w'"
        using customers_ok_append [OF ok c'(1)] c'(2-4) new by (simp add: c_def w1_def)
      then show "(\<exists>new. customers w' = customers w @ new) \<and> customer_seq w \<le> customer_seq w'
          \<and> customers_ok w'"
        using c' by (simp add: w1_def)
    qed
  qed
qed

lemma customers_same_deal_save:
  "deal_save fs obj w = (r, w') \<Longrightarrow> customers w' = customers w \<and> customer_seq w' = customer_seq w"
  by (auto simp: deal_save_def split: if_splits)

lemma customers_same_deal_create:
  "deal_create eid cust mid mat s w = (r, w') \<Longrightarrow>
   customers w' = customers w \<and> customer_seq w' = customer_seq w"
  by (auto simp: deal_create_def Let_def split: if_splits)

lemma customers_same_create_or_update_deal:
  assumes "create_or_update_deal env chat c ex w = (r, w')"
  shows "customers w' = customers w \<and> customer_seq w' = customer_seq w"
proof (cases "fault env DealStep chat")
  case True
  then show ?thesis using assms by (simp add: create_or_update_deal_def)
next
  case False
  show ?thesis
  proof (cases ex)
    case None
    then show ?thesis
      using assms False customers_same_deal_create by (simp add: create_or_update_deal_def)
  next
    case (Some d)
    obtain rs w1 where s: "deal_save [F_customer, F_last_message_id, F_last_message_at, F_sync_status,
                                F_deal_updated_at]
          (d\<lparr>deal_customer := Some (customer_id c),
                       last_message_id := message_id (last_message chat),
                       last_message_at := Some (created_at (last_message chat)),
                       sync_status := PENDING\<rparr>) w = (rs, w1)"
      by fastforce
    then have "w' = w1"
      using assms False Some by (cases rs) (simp_all add: create_or_update_deal_def Let_def)
    then show ?thesis
      using customers_same_deal_save [OF s] by simp
  qed
qed

lemma customers_same_save_message:
  "save_message_to_dynamodb env chat d w = (r, w') \<Longrightarrow>
   customers w' = customers w \<and> customer_seq w' = customer_seq w"
  by (auto simp: save_message_to_dynamodb_def save_message_def Let_def log_def split: if_splits)

lemma sync_chat_body_grow:
  assumes "sync_chat_body env chat ex w = (r, w')"
  shows "customers_grow w w'"
proof -
  obtain rc w1 where c: "get_or_create_customer env chat w = (rc, w1)"
    by fastforce
  note g1 = get_or_create_customer_grow [OF c]
  show ?thesis
  proof (cases rc)
    case (Inl e)
    then show ?thesis using assms c g1 by (simp add: sync_chat_body_def)
  next
    case cu: (Inr customer)
    obtain rd w2 where d: "create_or_update_deal env chat customer ex w1 = (rd, w2)"
      by fastforce
    have g2: "customers_grow w w2"
      using g1 customers_same_create_or_update_deal [OF d]
      by (auto intro: customers_grow_trans customers_same_grow)
    show ?thesis
    proof (cases rd)
      case (Inl e)
      then show ?thesis using assms c cu d g2 by (simp add: sync_chat_body_def)
    next
      case dl: (Inr deal)
      obtain rm w3 where m: "save_message_to_dynamodb env chat deal w2 = (rm, w3)"
        by fastforce
      have g3: "customers_grow w w3"
        using g2 customers_same_save_message [OF m]
        by (auto intro: customers_grow_trans customers_same_grow)
      show ?thesis
      proof (cases rm)
        case (Inl e)
        then show ?thesis using assms c cu d dl m g3 by (simp add: sync_chat_body_def)
      next
        case (Inr u)
        show ?thesis
        proof (cases "fault env FinalizeStep chat")
          case True
          then show ?thesis using assms c cu d dl m Inr g3 by (simp add: sync_chat_body_def)
        next
          case False
          then have "deal_save [F_sync_status, F_total_messages, F_deal_updated_at]
                           (deal\<lparr>sync_status := COMPLETE,
                                 total_messages := total_messages deal + 1\<rparr>) w3 = (r, w')"
            using assms c cu d dl m Inr by (simp add: sync_chat_body_def)
          from customers_same_deal_save [OF this] g3 show ?thesis
            by (auto intro: customers_grow_trans customers_same_grow)
        qed
      qed
    qed
  qed
qed

lemma customers_grow_log: "customers_grow w w1 \<Longrightarrow> customers_grow w (log e w1)"
  by (simp add: customers_grow_def customers_ok_def)

lemma sync_chat_atomic_grow:
  assumes "sync_chat_atomic env chat ex w = (r, w')"
  shows "customers_grow w w'"
proof -
  obtain rb w1 where b: "sync_chat_body env chat ex (log Begin w) = (rb, w1)"
    by fastforce
  have "customers_grow w (log Begin w)"
    by (simp add: customers_same_grow)
  then have g: "customers_grow w w1"
    using sync_chat_body_grow [OF b] by (rule customers_grow_trans)
  show ?thesis
  proof (cases rb)
    case (Inl e)
    then have "w' = log Rollback (rollback_to w w1)"
      using assms b by (simp add: sync_chat_atomic_def)
    then show ?thesis
      using g by (auto simp: customers_grow_def customers_ok_def rollback_to_def list_all_iff)
  next
    case (Inr u)
    then have "w' = log Commit w1"
      using assms b by (simp add: sync_chat_atomic_def)
    then show ?thesis
      using g by (simp add: customers_grow_log)
  qed
qed

lemma process_chat_rel:
  assumes refl: "\<And>w. R w w" and trans: "\<And>a b c. R a b \<Longrightarrow> R b c \<Longrightarrow> R a c"
    and q: "\<And>eid w r w'. deal_filter_first eid w = (r, w') \<Longrightarrow> R w w'"
    and a: "\<And>ex w r w'. sync_chat_atomic env chat ex w = (r, w') \<Longrightarrow> R w w'"
    and s: "\<And>obj w r st' w'.
              state_save [F_processed_chats, F_updated_at] obj w = (r, st', w') \<Longrightarrow> R w w'"
    and d: "\<And>fs obj w r w'. deal_save fs obj w = (r, w') \<Longrightarrow> R w w'"
    and p: "process_chat env chat st w = (r, st', w')"
  shows "R w w'"
proof (cases "too_old st chat")
  case True
  then show ?thesis using p refl by (simp add: process_chat_too_old)
next
  case False
  obtain ex w1 where qq: "deal_filter_first (chat_external_id chat) w = (ex, w1)"
    by fastforce
  note r1 = q [OF qq]
  show ?thesis
  proof (cases "unchanged ex chat")
    case True
    then show ?thesis
      using p r1 by (simp add: process_chat_unchanged [OF False qq])
  next
    case nc: False
    obtain ra w2 where aa: "sync_chat_atomic env chat ex w1 = (ra, w2)"
      by fastforce
    note r2 = trans [OF r1 a [OF aa]]
    show ?thesis
    proof (cases ra)
      case (Inr u)
      obtain ri st3 w3 where i: "increment_processed st w2 = (ri, st3, w3)"
        using prod_cases3 by blast
      note r3 = trans [OF r2 s [OF i [unfolded increment_processed_def]]]
      show ?thesis
      proof (cases ri)
        case ok: (Inr u')
        have "process_chat env chat st w = (Inr False, st3, w3)"
          using process_chat_synced [OF False qq nc aa [unfolded Inr] i [unfolded ok]] .
        then show ?thesis
          using p r3 by simp
      next
        case (Inl e)
        show ?thesis
        proof (cases ex)
          case None
          then show ?thesis
            using p False qq nc aa Inr i Inl r3
            by (simp add: process_chat_def cutoff_passed unchanged_def)
        next
          case (Some dl)
          obtain rs w4 where sv: "deal_save [F_sync_status, F_deal_updated_at]
              (dl\<lparr>sync_status := FAILED\<rparr>) w3 = (rs, w4)"
            by fastforce
          note r4 = trans [OF r3 d [OF sv]]
          show ?thesis
            using p False qq nc aa Inr i Inl Some sv r4
            by (cases rs) (simp_all add: process_chat_def cutoff_passed unchanged_def)
        qed
      qed
    next
      case (Inl e)
      show ?thesis
      proof (cases ex)
        case None
        have "process_chat env chat st w = (Inr False, st, w2)"
          using process_chat_failed_new [OF False qq [unfolded None] aa [unfolded None Inl]] .
        then show ?thesis
          using p r2 by simp
      next
        case (Some dl)
        obtain rs w4 where sv: "deal_save [F_sync_status, F_deal_updated_at]
            (dl\<lparr>sync_status := FAILED\<rparr>) w2 = (rs, w4)"
          by fastforce
        note r4 = trans [OF r2 d [OF sv]]
        have "process_chat env chat st w
              = (case rs of Inl e' \<Rightarrow> Inl e' | Inr _ \<Rightarrow> Inr False, st, w4)"
          using process_chat_failed_existing [OF False qq [unfolded Some] nc [unfolded Some]
              aa [unfolded Some Inl] sv] .
        then show ?thesis
          using p r4 by simp
      qed
    qed
  qed
qed

lemma process_page_rel:
  assumes refl: "\<And>w. R w w" and trans: "\<And>a b c. R a b \<Longrightarrow> R b c \<Longrightarrow> R a c"
    and c: "\<And>chat st w r st' w'. process_chat env chat st w = (r, st', w') \<Longrightarrow> R w w'"
    and p: "process_page env cs st w = (r, st', w')"
  shows "R w w'"
  using p
proof (induction cs arbitrary: st w)
  case Nil
  then show ?case using refl by simp
next
  case (Cons ch cs)
  obtain r1 st1 w1 where pc: "process_chat env ch st w = (r1, st1, w1)"
    using prod_cases3 by blast
  note s1 = c [OF pc]
  show ?case
  proof (cases r1)
    case (Inl e)
    then show ?thesis using Cons.prems pc s1 by simp
  next
    case (Inr stop)
    show ?thesis
    proof (cases stop)
      case True
      then show ?thesis using Cons.prems pc s1 Inr by simp
    next
      case False
      then have "process_page env cs st1 w1 = (r, st', w')"
        using Cons.prems pc Inr by simp
      from trans [OF s1 Cons.IH [OF this]] show ?thesis .
    qed
  qed
qed


lemma customers_same_state_save:
  "state_save fs obj w = (r, st', w') \<Longrightarrow> customers w' = customers w \<and> customer_seq w' = customer_seq w"
  by (auto simp: state_save_def Let_def split: if_splits)

lemma process_chat_grow:
  assumes "process_chat env chat st w = (r, st', w')"
  shows "customers_grow w w'"
proof (rule process_chat_rel [where R = customers_grow, OF _ _ _ _ _ _ assms])
  show "customers_grow w w" for w by simp
  show "customers_grow a b \<Longrightarrow> customers_grow b c \<Longrightarrow> customers_grow a c" for a b c
    by (rule customers_grow_trans)
  show "deal_filter_first eid w = (r, w') \<Longrightarrow> customers_grow w w'" for eid w r w'
    by (auto simp: deal_filter_first_def intro: customers_same_grow)
  show "sync_chat_atomic env chat ex w = (r, w') \<Longrightarrow> customers_grow w w'" for ex w r w'
    by (rule sync_chat_atomic_grow)
  show "state_save fs obj w = (r, st', w') \<Longrightarrow> customers_grow w w'" for fs obj w r st' w'
    using customers_same_state_save [of fs obj w r st' w'] by (simp add: customers_same_grow)
  show "deal_save fs obj w = (r, w') \<Longrightarrow> customers_grow w w'" for fs obj w r w'
    using customers_same_deal_save [of fs obj w r w'] by (simp add: customers_same_grow)
qed







lemma deals_same_refl [simp]: "deals_same w w"
  by (simp add: deals_same_def)

lemma deals_same_trans: "deals_same a b \<Longrightarrow> deals_same b c \<Longrightarrow> deals_same a c"
  by (simp add: deals_same_def)

lemma deals_same_log [simp]: "deals_same w (log e w)"
  by (simp add: deals_same_def)

lemma deals_same_customer_save: "deals_same w (snd (customer_save fs obj w))"
  by (simp add: deals_same_def customer_save_def)

lemma deals_same_upload_file [simp]: "deals_same w (upload_file k d ct w)"
  by (simp add: deals_same_def upload_file_def)

lemma deals_same_queue_avatar_upload [simp]: "deals_same w (queue_avatar_upload env c u w)"
  using queue_avatar_upload_cases [of env c u w]
    deals_same_trans [OF deals_same_upload_file deals_same_customer_save]
  by auto

lemma deals_same_customer_get_or_create:
  "customer_get_or_create eid n u w = (r, w') \<Longrightarrow> deals_same w w'"
  by (auto simp: deals_same_def customer_get_or_create_def Let_def log_def split: list.splits)

lemma deals_same_get_or_create_customer:
  "get_or_create_customer env chat w = (r, w') \<Longrightarrow> deals_same w w'"
  unfolding get_or_create_customer_def
  by (auto split: prod.splits sum.splits if_splits
      dest!: deals_same_customer_get_or_create
      intro: deals_same_trans [OF _ deals_same_queue_avatar_upload])

lemma distinct_key_filter_cases:
  assumes "distinct (map f xs)"
  shows "filter (\<lambda>x. f x = k) xs = [] \<or> (\<exists>c. filter (\<lambda>x. f x = k) xs = [c])"
proof -
  from distinct_key_filter_le_1 [OF assms, of k]
  have "length (filter (\<lambda>x. f x = k) xs) \<le> 1" .
  then show ?thesis
    by (cases "filter (\<lambda>x. f x = k) xs") (auto simp: Suc_le_eq)
qed

lemma get_or_create_customer_ok:
  assumes "\<not> fault env CustomerStep chat" and "customers_ok w"
  shows "\<exists>customer w'. get_or_create_customer env chat w = (Inr customer, w')"
proof -
  have "distinct (map customer_external_id (customers w))"
    using assms(2) by (simp add: customers_ok_def)
  from distinct_key_filter_cases [OF this, of "cc_external_id (chat_customer chat)"]
  show ?thesis
    using assms(1)
    by (auto simp: get_or_create_customer_def customer_get_or_create_def Let_def)
qed

lemma fold_deal_copy_keys [simp]:
  "deal_id (fold (deal_copy t obj) fs row) = deal_id row"
  "deal_external_id (fold (deal_copy t obj) fs row) = deal_external_id row"
proof (induction fs arbitrary: row)
  case Nil
  {
    case 1
    show ?case by simp
  next
    case 2
    show ?case by simp
  }
next
  case (Cons f fs)
  {
    case 1
    show ?case using Cons.IH(1) by (cases f) simp_all
  next
    case 2
    show ?case using Cons.IH(2) by (cases f) simp_all
  }
qed

lemma map_upd_last:
  assumes "list_all (\<lambda>r. f r < (k :: nat)) xs" and "f c = k"
  shows "map (\<lambda>row. if f row = k then g row else row) (xs @ [c]) = xs @ [g c]"
proof -
  have "map (\<lambda>row. if f row = k then g row else row) xs = xs"
    using assms(1) by (induction xs) auto
  then show ?thesis
    using assms(2) by simp
qed

lemma upd_keys:
  assumes "\<And>r. key (h r) = key r"
  shows "map key (map (\<lambda>row. if deal_id row = pk then h row else row) rows) = map key rows"
  using assms by (induction rows) simp_all

lemma upd_others:
  assumes "list_all (\<lambda>r. deal_id r = pk \<longrightarrow> deal_external_id r = e) rows"
    and "\<And>r. deal_external_id (h r) = deal_external_id r"
  shows "filter (\<lambda>r. deal_external_id r \<noteq> e)
           (map (\<lambda>row. if deal_id row = pk then h row else row) rows)
         = filter (\<lambda>r. deal_external_id r \<noteq> e) rows"
  using assms by (induction rows) simp_all

lemma upd_rows:
  assumes "list_all (\<lambda>r. deal_id r = pk \<longleftrightarrow> deal_external_id r = e) rows"
    and "\<And>r. deal_external_id (h r) = deal_external_id r"
  shows "filter (\<lambda>r. deal_external_id r = e)
           (map (\<lambda>row. if deal_id row = pk then h row else row) rows)
         = map h (filter (\<lambda>r. deal_external_id r = e) rows)"
  using assms by (induction rows) simp_all

lemma upd_keyed:
  assumes "list_all (\<lambda>r. deal_id r = k \<longleftrightarrow> deal_external_id r = e) rows"
    and "\<And>r. deal_id (h r) = deal_id r" and "\<And>r. deal_external_id (h r) = deal_external_id r"
  shows "list_all (\<lambda>r. deal_id r = k \<longleftrightarrow> deal_external_id r = e)
           (map (\<lambda>row. if deal_id row = pk then h row else row) rows)"
  using assms by (induction rows) auto

lemma keyed_row:
  assumes "deals_ok w" and "d \<in> set (deals w)"
  shows "list_all (\<lambda>r. deal_id r = deal_id d \<longleftrightarrow> deal_external_id r = deal_external_id d) (deals w)"
proof -
  have i: "inj_on deal_id (set (deals w))" "inj_on deal_external_id (set (deals w))"
    using assms(1) by (simp_all add: deals_ok_def distinct_map)
  show ?thesis
    unfolding list_all_iff
  proof
    fix r
    assume r: "r \<in> set (deals w)"
    show "deal_id r = deal_id d \<longleftrightarrow> deal_external_id r = deal_external_id d"
      using inj_onD [OF i(1) _ r assms(2)] inj_onD [OF i(2) _ r assms(2)] by blast
  qed
qed

lemma rows_of_member:
  assumes "deals_ok w" and "d \<in> set (deals w)"
  shows "rows_of (deal_external_id d) w = [d]"
proof -
  have "distinct (map deal_external_id (deals w))"
    using assms(1) by (simp add: deals_ok_def)
  from distinct_key_filter_cases [OF this, of "deal_external_id d"]
  obtain c where c: "rows_of (deal_external_id d) w = [c]"
    using assms(2) by (auto simp: rows_of_def filter_empty_conv)
  have "d \<in> set (rows_of (deal_external_id d) w)"
    using assms(2) by (simp add: rows_of_def)
  then show ?thesis
    using c by simp
qed

lemma others_same_one:
  "others_same [e] w w' \<longleftrightarrow>
     filter (\<lambda>d. deal_external_id d \<noteq> e) (deals w') = filter (\<lambda>d. deal_external_id d \<noteq> e) (deals w)"
  by (simp add: others_same_def)

lemma no_fault_steps:
  assumes "\<not> record_fails env chat"
  shows "\<not> fault env CustomerStep chat" "\<not> fault env DealStep chat"
    "\<not> fault env DocumentStep chat" "\<not> fault env FinalizeStep chat"
  using assms by (simp_all add: record_fails_def)

lemma rows_of_empty: "rows_of e w = [] \<longleftrightarrow> e \<notin> deal_external_id ` set (deals w)"
  by (auto simp: rows_of_def filter_empty_conv)

lemma sync_chat_body_new_ok:
  assumes nf: "\<not> record_fails env chat" and cok: "customers_ok w" and dok: "deals_ok w"
    and none: "rows_of (chat_external_id chat) w = []"
  shows "\<exists>w'. sync_chat_body env chat None w = (Inr (), w') \<and> deals_ok w'
           \<and> others_same [chat_external_id chat] w w'
           \<and> map sync_status (rows_of (chat_external_id chat) w') = [COMPLETE]"
proof -
  note f = no_fault_steps [OF nf]
  from get_or_create_customer_ok [OF f(1) cok] obtain customer w1 where
    c: "get_or_create_customer env chat w = (Inr customer, w1)"
    by blast
  from deals_same_get_or_create_customer [OF c]
  have s1: "deals w1 = deals w" "deal_seq w1 = deal_seq w"
    by (simp_all add: deals_same_def)
  have new: "chat_external_id chat \<notin> deal_external_id ` set (deals w1)"
    using none s1 by (simp add: rows_of_empty)
  have lt: "list_all (\<lambda>r. deal_id r < deal_seq w) (deals w)"
    using dok by (simp add: deals_ok_def)
  define D where "D = \<lparr>deal_id = deal_seq w, deal_external_id = chat_external_id chat,
     deal_customer = Some (customer_id customer),
     last_message_id = message_id (last_message chat),
     last_message_at = Some (created_at (last_message chat)), total_messages = 0,
     sync_status = PENDING, deal_created_at = now w1, deal_updated_at = now w1\<rparr>"
  define H where "H = fold (deal_copy (now w1 + 1) (D\<lparr>sync_status := COMPLETE, total_messages := 1\<rparr>))
     [F_sync_status, F_total_messages, F_deal_updated_at]"
  have r: "fst (sync_chat_body env chat None w) = Inr ()"
    "deals (snd (sync_chat_body env chat None w))
       = map (\<lambda>row. if deal_id row = deal_seq w then H row else row) (deals w @ [D])"
    "deal_seq (snd (sync_chat_body env chat None w)) = Suc (deal_seq w)"
    using f new s1
    by (simp_all add: sync_chat_body_def c create_or_update_deal_def deal_create_def
        save_message_to_dynamodb_def save_message_def deal_save_def Let_def D_def H_def)
  have d: "deals (snd (sync_chat_body env chat None w)) = deals w @ [H D]"
    unfolding r(2) by (rule map_upd_last [OF lt]) (simp add: D_def)
  have hd: "deal_id (H D) = deal_seq w" "deal_external_id (H D) = chat_external_id chat"
    "sync_status (H D) = COMPLETE"
    by (simp_all add: H_def D_def)
  have new0: "chat_external_id chat \<notin> deal_external_id ` set (deals w)"
    using new s1 by simp
  have ok: "deals_ok (snd (sync_chat_body env chat None w))"
    using dok new0 hd unfolding deals_ok_def d r(3)
    by (auto simp: list_all_iff less_Suc_eq)
  have oth: "others_same [chat_external_id chat] w (snd (sync_chat_body env chat None w))"
    unfolding others_same_def d using hd by simp
  have rows: "rows_of (chat_external_id chat) (snd (sync_chat_body env chat None w)) = [H D]"
    unfolding rows_of_def d using hd none by (simp add: rows_of_def)
  show ?thesis
    using r(1) ok oth rows hd(3)
    by (intro exI [of _ "snd (sync_chat_body env chat None w)"]) (simp add: prod_eq_iff)
qed

lemma deal_save_eq:
  assumes "deal_id obj \<in> set (map deal_id (deals w))"
  shows "deal_save fs obj w =
     (Inr (), w\<lparr>deals := map (\<lambda>row. if deal_id row = deal_id obj
                                      then fold (deal_copy (now w) obj) fs row else row) (deals w),
                 now := now w + 1, trace := trace w @ [DealUpdate (deal_id obj) fs]\<rparr>)"
  using assms by (simp add: deal_save_def)

lemma save_message_simps [simp]:
  "deals (save_message c m t a w) = deals w" "deal_seq (save_message c m t a w) = deal_seq w"
  "customers (save_message c m t a w) = customers w" "now (save_message c m t a w) = now w"
  by (simp_all add: save_message_def Let_def)

lemma sync_chat_body_existing_ok:
  assumes nf: "\<not> record_fails env chat" and cok: "customers_ok w" and dok: "deals_ok w"
    and mem: "d \<in> set (deals w)" and eid: "deal_external_id d = chat_external_id chat"
  shows "\<exists>w'. sync_chat_body env chat (Some d) w = (Inr (), w') \<and> deals_ok w'
           \<and> others_same [chat_external_id chat] w w'
           \<and> map sync_status (rows_of (chat_external_id chat) w') = [COMPLETE]"
proof -
  note f = no_fault_steps [OF nf]
  from get_or_create_customer_ok [OF f(1) cok] obtain customer w1 where
    c: "get_or_create_customer env chat w = (Inr customer, w1)"
    by blast
  from deals_same_get_or_create_customer [OF c]
  have s1: "deals w1 = deals w" "deal_seq w1 = deal_seq w"
    by (simp_all add: deals_same_def)
  define d1 where "d1 = d\<lparr>deal_customer := Some (customer_id customer),
                       last_message_id := message_id (last_message chat),
                       last_message_at := Some (created_at (last_message chat)),
                       sync_status := PENDING\<rparr>"
  define H1 where "H1 = fold (deal_copy (now w1) d1)
     [F_customer, F_last_message_id, F_last_message_at, F_sync_status, F_deal_updated_at]"
  define w2 where "w2 = w1\<lparr>deals := map (\<lambda>row. if deal_id row = deal_id d then H1 row else row) (deals w),
     now := now w1 + 1,
     trace := trace w1 @ [DealUpdate (deal_id d) [F_customer, F_last_message_id,
                            F_last_message_at, F_sync_status, F_deal_updated_at]]\<rparr>"
  have m1: "deal_id d1 \<in> set (map deal_id (deals w1))"
    using mem s1 by (simp add: d1_def)
  have u: "create_or_update_deal env chat customer (Some d) w1 = (Inr d1, w2)"
    using f(2) deal_save_eq [OF m1]
    by (simp add: create_or_update_deal_def Let_def d1_def [symmetric] w2_def H1_def s1)
      (simp add: d1_def H1_def)
  define w3 where "w3 = save_message (deal_external_id d1) (message_id (last_message chat))
              (msg_text (last_message chat)) (created_at (last_message chat)) w2"
  have m: "save_message_to_dynamodb env chat d1 w2 = (Inr (), w3)"
    using f(3) by (simp add: save_message_to_dynamodb_def w3_def)
  have k2: "map deal_id (deals w2) = map deal_id (deals w)"
    "map deal_external_id (deals w2) = map deal_external_id (deals w)"
    unfolding w2_def by (simp_all add: upd_keys H1_def del: map_map)
  define d2 where "d2 = d1\<lparr>sync_status := COMPLETE, total_messages := total_messages d1 + 1\<rparr>"
  define H2 where "H2 = fold (deal_copy (now w3) d2) [F_sync_status, F_total_messages, F_deal_updated_at]"
  have "deal_id d \<in> set (map deal_id (deals w))"
    using mem by simp
  then have m3: "deal_id d2 \<in> set (map deal_id (deals w3))"
    using k2(1) by (simp add: d2_def d1_def w3_def del: set_map map_map)
  have id2: "deal_id d2 = deal_id d"
    by (simp add: d2_def d1_def)
  define w4 where "w4 = w3\<lparr>deals := map (\<lambda>row. if deal_id row = deal_id d then H2 row else row) (deals w2),
     now := now w3 + 1,
     trace := trace w3 @ [DealUpdate (deal_id d) [F_sync_status, F_total_messages, F_deal_updated_at]]\<rparr>"
  have fin: "deal_save [F_sync_status, F_total_messages, F_deal_updated_at] d2 w3 = (Inr (), w4)"
    unfolding deal_save_eq [OF m3] id2 by (simp add: w4_def H2_def w3_def)
  have b: "sync_chat_body env chat (Some d) w = (Inr (), w4)"
    using f(4) fin by (simp add: sync_chat_body_def c u m d2_def)
  have k4: "map deal_id (deals w4) = map deal_id (deals w)"
    "map deal_external_id (deals w4) = map deal_external_id (deals w)"
    unfolding w4_def using k2 by (simp_all add: upd_keys H2_def del: map_map)
  have seq: "deal_seq w4 = deal_seq w"
    by (simp add: w4_def w3_def w2_def s1)
  have ok: "deals_ok w4"
    using dok unfolding deals_ok_def k4 seq
    by (simp add: list_all_iff) (metis k4(1) set_map imageE imageI)
  note ky = keyed_row [OF dok mem]
  have ky2: "list_all (\<lambda>r. deal_id r = deal_id d \<longleftrightarrow> deal_external_id r = deal_external_id d) (deals w2)"
    unfolding w2_def using upd_keyed [OF ky, of H1 "deal_id d"] by (simp add: H1_def)
  have r2: "rows_of (deal_external_id d) w2 = map H1 (rows_of (deal_external_id d) w)"
    unfolding rows_of_def w2_def using upd_rows [OF ky, of H1] by (simp add: H1_def del: map_map)
  have r4: "rows_of (deal_external_id d) w4 = map H2 (rows_of (deal_external_id d) w2)"
    unfolding rows_of_def w4_def using upd_rows [OF ky2, of H2] by (simp add: H2_def del: map_map)
  have rows: "rows_of (deal_external_id d) w4 = [H2 (H1 d)]"
    unfolding r4 r2 rows_of_member [OF dok mem] by simp
  have st: "sync_status (H2 (H1 d)) = COMPLETE"
    by (simp add: H2_def d2_def)
  have o2: "filter (\<lambda>r. deal_external_id r \<noteq> deal_external_id d) (deals w2)
            = filter (\<lambda>r. deal_external_id r \<noteq> deal_external_id d) (deals w)"
    unfolding w2_def using upd_others [of "deal_id d" "deal_external_id d" "deals w" H1] ky
    by (simp add: list_all_iff H1_def del: map_map)
  have o4: "filter (\<lambda>r. deal_external_id r \<noteq> deal_external_id d) (deals w4)
            = filter (\<lambda>r. deal_external_id r \<noteq> deal_external_id d) (deals w2)"
    unfolding w4_def using upd_others [of "deal_id d" "deal_external_id d" "deals w2" H2] ky2
    by (simp add: list_all_iff H2_def del: map_map)
  have oth: "others_same [chat_external_id chat] w w4"
    using o2 o4 by (simp add: others_same_def eid)
  show ?thesis
    using b ok oth rows st by (simp add: eid [symmetric])
qed

lemma deal_seq_deal_save: "deal_save fs obj w = (r, w') \<Longrightarrow> deal_seq w' = deal_seq w"
  by (auto simp: deal_save_def split: if_splits)

lemma deal_seq_create_or_update_deal:
  "create_or_update_deal env chat c ex w = (r, w') \<Longrightarrow> deal_seq w \<le> deal_seq w'"
  by (auto simp: create_or_update_deal_def deal_create_def deal_save_def Let_def
      split: if_splits option.splits)

lemma deal_seq_save_message:
  "save_message_to_dynamodb env chat d w = (r, w') \<Longrightarrow> deal_seq w' = deal_seq w"
  by (auto simp: save_message_to_dynamodb_def log_def split: if_splits)

lemma deal_seq_sync_chat_body:
  assumes "sync_chat_body env chat ex w = (r, w')"
  shows "deal_seq w \<le> deal_seq w'"
proof -
  obtain rc w1 where c: "get_or_create_customer env chat w = (rc, w1)"
    by fastforce
  from deals_same_get_or_create_customer [OF c] have s1: "deal_seq w1 = deal_seq w"
    by (simp add: deals_same_def)
  show ?thesis
  proof (cases rc)
    case (Inl e)
    then show ?thesis using assms c s1 by (simp add: sync_chat_body_def)
  next
    case cu: (Inr customer)
    obtain rd w2 where d: "create_or_update_deal env chat customer ex w1 = (rd, w2)"
      by fastforce
    note s2 = deal_seq_create_or_update_deal [OF d]
    show ?thesis
    proof (cases rd)
      case (Inl e)
      then show ?thesis using assms c cu d s1 s2 by (simp add: sync_chat_body_def)
    next
      case dl: (Inr deal)
      obtain rm w3 where m: "save_message_to_dynamodb env chat deal w2 = (rm, w3)"
        by fastforce
      note s3 = deal_seq_save_message [OF m]
      show ?thesis
      proof (cases rm)
        case (Inl e)
        then show ?thesis using assms c cu d dl m s1 s2 s3 by (simp add: sync_chat_body_def)
      next
        case (Inr u)
        show ?thesis
        proof (cases "fault env FinalizeStep chat")
          case True
          then show ?thesis
            using assms c cu d dl m Inr s1 s2 s3 by (simp add: sync_chat_body_def)
        next
          case False
          then have "deal_save [F_sync_status, F_total_messages, F_deal_updated_at]
                       (deal\<lparr>sync_status := COMPLETE, total_messages := total_messages deal + 1\<rparr>) w3
                     = (r, w')"
            using assms c cu d dl m Inr by (simp add: sync_chat_body_def)
          from deal_seq_deal_save [OF this] show ?thesis
            using s1 s2 s3 by simp
        qed
      qed
    qed
  qed
qed

lemma deal_seq_sync_chat_atomic:
  assumes "sync_chat_atomic env chat ex w = (r, w')"
  shows "deal_seq w \<le> deal_seq w'"
proof -
  obtain rb w1 where b: "sync_chat_body env chat ex (log Begin w) = (rb, w1)"
    by fastforce
  from deal_seq_sync_chat_body [OF b] have "deal_seq w \<le> deal_seq w1"
    by simp
  then show ?thesis
    using assms b by (cases rb) (auto simp: sync_chat_atomic_def rollback_to_def)
qed

lemma deal_seq_state_save: "state_save fs obj w = (r, st', w') \<Longrightarrow> deal_seq w' = deal_seq w"
  by (auto simp: state_save_def Let_def split: if_splits)

lemma deal_seq_process_chat:
  assumes "process_chat env chat st w = (r, st', w')"
  shows "deal_seq w \<le> deal_seq w'"
proof (rule process_chat_rel [where R = "\<lambda>w w'. deal_seq w \<le> deal_seq w'", OF _ _ _ _ _ _ assms])
  show "deal_seq w \<le> deal_seq w" for w :: world by simp
  show "deal_seq a \<le> deal_seq b \<Longrightarrow> deal_seq b \<le> deal_seq c \<Longrightarrow> deal_seq a \<le> deal_seq c"
    for a b c :: world by simp
  show "deal_filter_first eid w = (r, w') \<Longrightarrow> deal_seq w \<le> deal_seq w'" for eid w r w'
    by (auto simp: deal_filter_first_def)
  show "sync_chat_atomic env chat ex w = (r, w') \<Longrightarrow> deal_seq w \<le> deal_seq w'" for ex w r w'
    by (rule deal_seq_sync_chat_atomic)
  show "state_save fs obj w = (r, st', w') \<Longrightarrow> deal_seq w \<le> deal_seq w'" for fs obj w r st' w'
    using deal_seq_state_save [of fs obj w r st' w'] by simp
  show "deal_save fs obj w = (r, w') \<Longrightarrow> deal_seq w \<le> deal_seq w'" for fs obj w r w'
    using deal_seq_deal_save [of fs obj w r w'] by simp
qed

lemma deals_ok_kept:
  "deals_ok w \<Longrightarrow> deals w' = deals w \<Longrightarrow> deal_seq w \<le> deal_seq w' \<Longrightarrow> deals_ok w'"
  by (auto simp: deals_ok_def list_all_iff)

lemma customers_ok_kept:
  "customers_ok w \<Longrightarrow> customers w' = customers w \<Longrightarrow> customer_seq w' = customer_seq w
   \<Longrightarrow> customers_ok w'"
  by (simp add: customers_ok_def)

lemma rows_of_kept: "deals w' = deals w \<Longrightarrow> rows_of e w' = rows_of e w"
  by (simp add: rows_of_def)

lemma others_same_kept: "deals w' = deals w \<Longrightarrow> others_same es w w'"
  by (simp add: others_same_def)

lemma others_same_left: "deals w0 = deals w \<Longrightarrow> others_same es w0 w' \<Longrightarrow> others_same es w w'"
  by (simp add: others_same_def)

lemma others_same_right: "others_same es w w1 \<Longrightarrow> deals w' = deals w1 \<Longrightarrow> others_same es w w'"
  by (simp add: others_same_def)

lemma sync_chat_atomic_ok:
  assumes nf: "\<not> record_fails env chat" and cok: "customers_ok w" and dok: "deals_ok w"
    and ex: "case ex of None \<Rightarrow> rows_of (chat_external_id chat) w = []
             | Some d \<Rightarrow> d \<in> set (deals w) \<and> deal_external_id d = chat_external_id chat"
  shows "\<exists>w'. sync_chat_atomic env chat ex w = (Inr (), w') \<and> deals_ok w'
           \<and> others_same [chat_external_id chat] w w'
           \<and> map sync_status (rows_of (chat_external_id chat) w') = [COMPLETE]"
proof -
  let ?b = "log Begin w"
  have cb: "customers_ok ?b" and db: "deals_ok ?b"
    using cok dok by (simp_all add: customers_ok_def deals_ok_def)
  have "\<exists>w1. sync_chat_body env chat ex ?b = (Inr (), w1) \<and> deals_ok w1
           \<and> others_same [chat_external_id chat] ?b w1
           \<and> map sync_status (rows_of (chat_external_id chat) w1) = [COMPLETE]"
  proof (cases ex)
    case None
    then have "rows_of (chat_external_id chat) ?b = []"
      using ex by (simp add: rows_of_def)
    from sync_chat_body_new_ok [OF nf cb db this] show ?thesis
      using None by simp
  next
    case (Some d)
    then have "d \<in> set (deals ?b)" "deal_external_id d = chat_external_id chat"
      using ex by simp_all
    from sync_chat_body_existing_ok [OF nf cb db this] show ?thesis
      using Some by simp
  qed
  then obtain w1 where b: "sync_chat_body env chat ex ?b = (Inr (), w1)" and k: "deals_ok w1"
    "others_same [chat_external_id chat] ?b w1"
    "map sync_status (rows_of (chat_external_id chat) w1) = [COMPLETE]"
    by (elim exE conjE) (rule that)
  have a: "sync_chat_atomic env chat ex w = (Inr (), log Commit w1)"
    using b by (simp add: sync_chat_atomic_def)
  have "deals_ok (log Commit w1)"
    using k(1) by (simp add: deals_ok_def)
  moreover have "others_same [chat_external_id chat] w (log Commit w1)"
    using k(2) by (simp add: others_same_def)
  moreover have "map sync_status (rows_of (chat_external_id chat) (log Commit w1)) = [COMPLETE]"
    using k(3) by (simp add: rows_of_def)
  ultimately show ?thesis
    using a by simp
qed

lemma changed_not_unchanged:
  assumes "changed w chat" and "deal_filter_first (chat_external_id chat) w = (ex, w1)"
  shows "\<not> unchanged ex chat"
proof (cases ex)
  case None
  then show ?thesis by (simp add: unchanged_def)
next
  case (Some d)
  from deal_filter_first_Some [OF assms(2) [unfolded Some]]
  have "d \<in> set (rows_of (chat_external_id chat) w)"
    by (simp add: rows_of_def)
  then show ?thesis
    using assms(1) Some by (auto simp: changed_def unchanged_def list_all_iff)
qed

lemma mark_failed_outcome:
  assumes dok: "deals_ok w" and mem: "d \<in> set (deals w)"
    and w': "deals w' = mark_failed (deal_id d) t (deals w)" and seq: "deal_seq w \<le> deal_seq w'"
  shows "deals_ok w' \<and> others_same [deal_external_id d] w w'
         \<and> map sync_status (rows_of (deal_external_id d) w') = [FAILED]"
proof -
  define h where "h = (\<lambda>row :: Deal. row\<lparr>sync_status := FAILED, deal_updated_at := t\<rparr>)"
  have m: "deals w' = map (\<lambda>row. if deal_id row = deal_id d then h row else row) (deals w)"
    by (simp add: w' mark_failed_def h_def)
  note ky = keyed_row [OF dok mem]
  have k: "map deal_id (deals w') = map deal_id (deals w)"
    "map deal_external_id (deals w') = map deal_external_id (deals w)"
    unfolding m by (simp_all add: upd_keys h_def del: map_map)
  have "set (map deal_id (deals w')) = set (map deal_id (deals w))"
    using k(1) by simp
  then have ids: "deal_id ` set (deals w') = deal_id ` set (deals w)"
    by simp
  have lt: "list_all (\<lambda>r. deal_id r < deal_seq w') (deals w')"
  proof -
    have "\<forall>i \<in> deal_id ` set (deals w). i < deal_seq w"
      using dok by (auto simp: deals_ok_def list_all_iff)
    then have "\<forall>i \<in> deal_id ` set (deals w'). i < deal_seq w'"
      using ids seq by auto
    then show ?thesis
      by (auto simp: list_all_iff)
  qed
  have ok: "deals_ok w'"
    using dok lt unfolding deals_ok_def k by simp
  have oth: "others_same [deal_external_id d] w w'"
    unfolding others_same_def m
    using upd_others [of "deal_id d" "deal_external_id d" "deals w" h] ky
    by (simp add: list_all_iff h_def del: map_map)
  have "rows_of (deal_external_id d) w' = map h (rows_of (deal_external_id d) w)"
    unfolding rows_of_def m using upd_rows [OF ky, of h] by (simp add: h_def del: map_map)
  then have "rows_of (deal_external_id d) w' = [h d]"
    by (simp add: rows_of_member [OF dok mem])
  then show ?thesis
    using ok oth by (simp add: h_def)
qed

lemma process_chat_outcome:
  assumes cok: "customers_ok w" and dok: "deals_ok w" and m: "st \<in> set (sync_states w)"
    and old: "\<not> too_old st chat" and ch: "changed w chat"
  shows "\<exists>st' w'. process_chat env chat st w = (Inr False, st', w')
           \<and> customers_ok w' \<and> deals_ok w' \<and> st' \<in> set (sync_states w') \<and> same_run st st'
           \<and> processed_chats st' = processed_chats st + (if record_fails env chat then 0 else 1)
           \<and> others_same [chat_external_id chat] w w'
           \<and> outcome env w w' chat"
proof -
  let ?eid = "chat_external_id chat"
  obtain ex w1 where q: "deal_filter_first ?eid w = (ex, w1)"
    by fastforce
  have w1: "w1 = log DealSelect w"
    using q by (simp add: deal_filter_first_def)
  note nc = changed_not_unchanged [OF ch q]
  have exq: "case ex of None \<Rightarrow> rows_of ?eid w = []
             | Some d \<Rightarrow> d \<in> set (deals w) \<and> deal_external_id d = ?eid"
  proof (cases ex)
    case None
    then show ?thesis
      using deal_filter_first_None [OF q [unfolded None]] by (simp add: rows_of_def)
  next
    case (Some d)
    then show ?thesis
      using deal_filter_first_Some [OF q [unfolded Some]] by simp
  qed
  have common: "customers_ok w' \<and> st' \<in> set (sync_states w') \<and> same_run st st'
      \<and> deal_seq w \<le> deal_seq w'" if "process_chat env chat st w = (r, st', w')" for r st' w'
    using process_chat_grow [OF that] process_chat_state [OF m that] deal_seq_process_chat [OF that]
      cok by (simp add: customers_grow_def)
  show ?thesis
  proof (cases "record_fails env chat")
    case True
    then obtain s where "fault env s chat"
      by (auto simp: record_fails_def)
    from sync_chat_atomic_fault [OF this, of ex w1] obtain e w2 where
      a: "sync_chat_atomic env chat ex w1 = (Inl e, w2)"
      by blast
    note fo = failed_record_outcome [OF old q nc a]
    show ?thesis
    proof (cases ex)
      case None
      then have p: "process_chat env chat st w = (Inr False, st, w2)"
        using fo by simp
      have d2: "deals w2 = deals w"
        using fo by simp
      have "rows_of ?eid w = []"
        using exq None by simp
      then have "outcome env w w2 chat"
        using True by (simp add: outcome_def rows_of_kept [OF d2])
      then show ?thesis
        using p common [OF p] deals_ok_kept [OF dok d2] others_same_kept [OF d2] True by simp
    next
      case (Some d)
      then obtain w' where p: "process_chat env chat st w = (Inr False, st, w')"
        and d': "deals w' = mark_failed (deal_id d) (now w2) (deals w)"
        using fo by blast
      have mem: "d \<in> set (deals w)" and eid: "deal_external_id d = ?eid"
        using exq Some by simp_all
      note c = common [OF p]
      from mark_failed_outcome [OF dok mem d'] c
      have k: "deals_ok w'" "others_same [?eid] w w'" "map sync_status (rows_of ?eid w') = [FAILED]"
        by (simp_all add: eid)
      have "rows_of ?eid w = [d]"
        using rows_of_member [OF dok mem] by (simp add: eid)
      then have "outcome env w w' chat"
        using True k(3) by (simp add: outcome_def)
      then show ?thesis
        using p c k True by simp
    qed
  next
    case False
    have c1: "customers_ok w1" and d1: "deals_ok w1"
      using cok dok by (simp_all add: w1 customers_ok_def deals_ok_def)
    have ex1: "case ex of None \<Rightarrow> rows_of ?eid w1 = []
             | Some d \<Rightarrow> d \<in> set (deals w1) \<and> deal_external_id d = ?eid"
      using exq by (simp add: w1 rows_of_def split: option.splits)
    from sync_chat_atomic_ok [OF False c1 d1 ex1] obtain w2 where
      a: "sync_chat_atomic env chat ex w1 = (Inr (), w2)" and k2: "deals_ok w2"
      "others_same [?eid] w1 w2" "map sync_status (rows_of ?eid w2) = [COMPLETE]"
      by (elim exE conjE) (rule that)
    have "untouched w w2"
      using untouched_trans [OF untouched_deal_filter_first [OF q] untouched_sync_chat_atomic [OF a]] .
    then have m2: "st \<in> set (sync_states w2)"
      using m by (simp add: untouched_def)
    from increment_processed_ok [OF m2] obtain st3 w3 where
      i: "increment_processed st w2 = (Inr (), st3, w3)"
      and pc: "processed_chats st3 = Suc (processed_chats st)"
      and f3: "deals w3 = deals w2" "deal_seq w3 = deal_seq w2"
      by (elim exE conjE) (rule that)
    have p: "process_chat env chat st w = (Inr False, st3, w3)"
      using process_chat_synced [OF old q nc a i] .
    note c = common [OF p]
    have ok3: "deals_ok w3"
      using deals_ok_kept [OF k2(1) f3(1)] f3(2) by simp
    have o3: "others_same [?eid] w w3"
      using k2(2) f3(1) by (simp add: others_same_def w1)
    have "outcome env w w3 chat"
      using False k2(3) by (simp add: outcome_def rows_of_kept [OF f3(1)])
    then show ?thesis
      using p c ok3 o3 pc False by simp
  qed
qed

lemma filter_weaken:
  assumes "filter P xs = filter P ys" and "\<And>x. Q x \<Longrightarrow> P x"
  shows "filter Q xs = filter Q ys"
proof -
  have "filter Q zs = filter Q (filter P zs)" for zs :: "'a list"
    using assms(2) by (induction zs) auto
  from this [of xs] this [of ys] show ?thesis
    using assms(1) by simp
qed

lemma others_same_rows:
  assumes "others_same es w w'" and "e \<notin> set es"
  shows "rows_of e w' = rows_of e w"
  unfolding rows_of_def
  by (rule filter_weaken [OF assms(1) [unfolded others_same_def]]) (use assms(2) in auto)

lemma others_same_weaken:
  assumes "others_same es w w'" and "set es \<subseteq> set es'"
  shows "others_same es' w w'"
  unfolding others_same_def
  by (rule filter_weaken [OF assms(1) [unfolded others_same_def]]) (use assms(2) in auto)

lemma others_same_trans:
  "others_same es a b \<Longrightarrow> others_same es b c \<Longrightarrow> others_same es a c"
  by (simp add: others_same_def)

lemma others_same_refl [simp]: "others_same es w w"
  by (simp add: others_same_def)

lemma too_old_same_run: "same_run st st' \<Longrightarrow> too_old st' c = too_old st c"
  by (simp add: same_run_def too_old_def)

lemma same_run_trans: "same_run a b \<Longrightarrow> same_run b c \<Longrightarrow> same_run a c"
  by (simp add: same_run_def)

lemma process_page_outcome:
  assumes "customers_ok w" and "deals_ok w" and "st \<in> set (sync_states w)"
    and "distinct (map chat_external_id cs)"
    and "list_all (\<lambda>chat. \<not> too_old st chat \<and> changed w chat) cs"
  shows "\<exists>st' w'. process_page env cs st w = (Inr False, st', w')
           \<and> customers_ok w' \<and> deals_ok w' \<and> st' \<in> set (sync_states w') \<and> same_run st st'
           \<and> processed_chats st'
               = processed_chats st + length (filter (\<lambda>c. \<not> record_fails env c) cs)
           \<and> others_same (map chat_external_id cs) w w'
           \<and> list_all (outcome env w w') cs"
  using assms
proof (induction cs arbitrary: st w)
  case Nil
  then show ?case by simp
next
  case (Cons chat cs)
  let ?eid = "chat_external_id chat"
  have old: "\<not> too_old st chat" and ch: "changed w chat"
    using Cons.prems(5) by simp_all
  from process_chat_outcome [OF Cons.prems(1-3) old ch, of env] obtain st1 w1 where
    p1: "process_chat env chat st w = (Inr False, st1, w1)"
    and k1: "customers_ok w1" "deals_ok w1" "st1 \<in> set (sync_states w1)" "same_run st st1"
      "processed_chats st1 = processed_chats st + (if record_fails env chat then 0 else 1)"
      "others_same [?eid] w w1" "outcome env w w1 chat"
    by (elim exE conjE) (rule that)
  have notin: "?eid \<notin> set (map chat_external_id cs)" and dist: "distinct (map chat_external_id cs)"
    using Cons.prems(4) by simp_all
  have rows1: "rows_of (chat_external_id c) w1 = rows_of (chat_external_id c) w" if "c \<in> set cs" for c
  proof -
    have "chat_external_id c \<in> chat_external_id ` set cs"
      using that by (rule imageI)
    then have "chat_external_id c \<notin> set [?eid]"
      using notin by auto
    from others_same_rows [OF k1(6) this] show ?thesis .
  qed
  have rest: "list_all (\<lambda>c. \<not> too_old st1 c \<and> changed w1 c) cs"
    using Cons.prems(5) rows1 too_old_same_run [OF k1(4)]
    by (simp add: list_all_iff changed_def)
  from Cons.IH [OF k1(1-3) dist rest] obtain st' w' where
    p: "process_page env cs st1 w1 = (Inr False, st', w')"
    and k: "customers_ok w'" "deals_ok w'" "st' \<in> set (sync_states w')" "same_run st1 st'"
      "processed_chats st'
         = processed_chats st1 + length (filter (\<lambda>c. \<not> record_fails env c) cs)"
      "others_same (map chat_external_id cs) w1 w'"
      "list_all (outcome env w1 w') cs"
    by (elim exE conjE) (rule that)
  have pp: "process_page env (chat # cs) st w = (Inr False, st', w')"
    using p1 p by simp
  have sr: "same_run st st'"
    using same_run_trans [OF k1(4) k(4)] .
  have cnt: "processed_chats st'
      = processed_chats st + length (filter (\<lambda>c. \<not> record_fails env c) (chat # cs))"
    using k1(5) k(5) by simp
  have oth: "others_same (map chat_external_id (chat # cs)) w w'"
    using others_same_trans [OF others_same_weaken [OF k1(6)] others_same_weaken [OF k(6)],
        of "map chat_external_id (chat # cs)"]
    by auto
  have "rows_of ?eid w' = rows_of ?eid w1"
    using others_same_rows [OF k(6) notin] .
  then have hd: "outcome env w w' chat"
    using k1(7) by (simp add: outcome_def)
  have tl: "list_all (outcome env w w') cs"
    using k(7) rows1 by (simp add: list_all_iff outcome_def)
  show ?case
    using pp k(1-3) sr cnt oth hd tl by simp
qed

lemma cutoff_older_ends_run:
  assumes "max_date st = Some (Aware D)" and "created_at (last_message chat) < D"
    and "api_get_chats env (api_calls w0) c = Inr page"
    and "chats page = pre @ chat # rest"
    and "process_page env pre st0 (fetched c w0) = (Inr False, st, w)"
    and "st0 \<in> set (sync_states w0)"
  shows "\<exists>st' w'. run_loop (Suc n) env c st0 w0 = Some (Inr (), st', w')
           \<and> processed_chats st' = processed_chats st \<and> deals w' = deals w
           \<and> customers w' = customers w \<and> messages w' = messages w
           \<and> api_calls w' = Suc (api_calls w0)"
proof -
  have o: "too_old st chat" and r: "cutoff_result st = Inr True"
    using assms(1,2) by (simp_all add: too_old_def lt_aware_def cutoff_result_def)
  from process_page_stop_on_old [OF assms(5) o, of rest]
  have "process_page env (chats page) st0 (fetched c w0) = (Inr True, st, w)"
    using assms(4) r by simp
  from run_loop_stops [OF assms(3) this _ assms(6), of n] show ?thesis
    by auto
qed

lemma cutoff_not_older_synced:
  assumes "max_date st = Some (Aware D)" and "\<not> created_at (last_message chat) < D"
    and "customers_ok w" and "deals_ok w" and "st \<in> set (sync_states w)" and "changed w chat"
  shows "\<exists>st' w'. process_chat env chat st w = (Inr False, st', w')
           \<and> processed_chats st' = processed_chats st + (if record_fails env chat then 0 else 1)
           \<and> outcome env w w' chat \<and> others_same [chat_external_id chat] w w'
           \<and> same_run st st'"
proof -
  have old: "\<not> too_old st chat"
    using assms(1,2) by (simp add: too_old_def lt_aware_def)
  from process_chat_outcome [OF assms(3-5) old assms(6), of env] show ?thesis
    by blast
qed

lemma naive_cutoff_raises:
  assumes "max_date st = Some (Naive D)"
  shows "process_chat env chat st w = (Inl TypeError, st, w)"
  using assms by (simp add: process_chat_def lt_aware_def)

lemma naive_cutoff_task:
  "(case sync_chats_task (Suc 0) naive_cutoff_env ''task-1'' (Some ''2024-05-20T10:00:00'') fresh of
      None \<Rightarrow> False
    | Some (res, w') \<Rightarrow> res = Retry TypeError \<and> deals w' = [] \<and> customers w' = []
        \<and> map status (sync_states w') = [Status_FAILED]
        \<and> map max_date (sync_states w') = [Some (Aware 100)]
        \<and> map processed_chats (sync_states w') = [0])"
  by (simp add: sync_chats_task_def cache_add_def SYNC_LOCK_KEY_def fresh_def
      get_or_create_sync_state_def state_filter_incomplete_first_def first_def order_by_desc_def
      naive_cutoff_env_def quiet_env_def one_page_def state_create_def make_aware_def log_def
      state_save_def run_def run_loop.simps api_client_get_chats_def process_chat_def
      lt_aware_def chat_at_def task_failed_def cache_delete_def Let_def)

text \<open>
  C6. The cutoff test of \<open>_process_chat\<close> is \<^verbatim>\<open>created_at < max_date\<close> on Python datetimes.
  With an offset-aware cutoff \<open>D\<close> in the run state (a resumed run, or a new run whose
  cutoff string carried an offset): a record whose timestamp is before \<open>D\<close> signals stop
  at once and changes nothing, and when the page loop reaches it (after the records \<open>pre\<close>
  of the page) the run ends normally with no further fetch; a record whose timestamp is
  not before \<open>D\<close>, in particular one at \<open>D\<close> exactly, that brings a new last message is
  synced: \<open>_process_chat\<close> returns without the stop signal, the counter grows by one and
  the record's entity row is COMPLETE (if one of its steps raises, the counter stays and
  the row it had is FAILED). With an offset-naive cutoff (a new run whose cutoff string
  carried no offset) the comparison raises TypeError for every record, whatever its
  timestamp: nothing is compared, and the exception leaves \<open>_process_chat\<close>.
\<close>

theorem cutoff_is_strict:
  "(max_date st = Some (Aware D) \<and> created_at (last_message chat) < D \<longrightarrow>
      process_chat env chat st w = (Inr True, st, w)
      \<and> (api_get_chats env (api_calls w0) c = Inr page \<and> chats page = pre @ chat # rest
         \<and> process_page env pre st0 (fetched c w0) = (Inr False, st, w)
         \<and> st0 \<in> set (sync_states w0) \<longrightarrow>
         (\<exists>st' w'. run_loop (Suc n) env c st0 w0 = Some (Inr (), st', w')
            \<and> processed_chats st' = processed_chats st \<and> deals w' = deals w
            \<and> customers w' = customers w \<and> messages w' = messages w
            \<and> api_calls w' = Suc (api_calls w0))))
   \<and> (max_date st = Some (Aware D) \<and> \<not> created_at (last_message chat) < D
       \<and> customers_ok w \<and> deals_ok w \<and> st \<in> set (sync_states w) \<and> changed w chat \<longrightarrow>
       (\<exists>st' w'. process_chat env chat st w = (Inr False, st', w')
          \<and> processed_chats st' = processed_chats st + (if record_fails env chat then 0 else 1)
          \<and> outcome env w w' chat \<and> others_same [chat_external_id chat] w w'
          \<and> same_run st st'))
   \<and> (max_date st = Some (Naive D) \<longrightarrow> process_chat env chat st w = (Inl TypeError, st, w))"
proof (intro conjI impI)
  assume a: "max_date st = Some (Aware D) \<and> created_at (last_message chat) < D"
  then have "too_old st chat" "cutoff_result st = Inr True"
    by (simp_all add: too_old_def lt_aware_def cutoff_result_def)
  then show "process_chat env chat st w = (Inr True, st, w)"
    by (simp add: process_chat_too_old)
  assume "api_get_chats env (api_calls w0) c = Inr page \<and> chats page = pre @ chat # rest
         \<and> process_page env pre st0 (fetched c w0) = (Inr False, st, w)
         \<and> st0 \<in> set (sync_states w0)"
  then show "\<exists>st' w'. run_loop (Suc n) env c st0 w0 = Some (Inr (), st', w')
      \<and> processed_chats st' = processed_chats st \<and> deals w' = deals w
      \<and> customers w' = customers w \<and> messages w' = messages w
      \<and> api_calls w' = Suc (api_calls w0)"
    using cutoff_older_ends_run [of st D chat env w0 c page pre rest st0 w n] a by blast
next
  assume "max_date st = Some (Aware D) \<and> \<not> created_at (last_message chat) < D
       \<and> customers_ok w \<and> deals_ok w \<and> st \<in> set (sync_states w) \<and> changed w chat"
  then show "\<exists>st' w'. process_chat env chat st w = (Inr False, st', w')
          \<and> processed_chats st' = processed_chats st + (if record_fails env chat then 0 else 1)
          \<and> outcome env w w' chat \<and> others_same [chat_external_id chat] w w'
          \<and> same_run st st'"
    using cutoff_not_older_synced [of st D chat w env] by blast
next
  assume "max_date st = Some (Naive D)"
  then show "process_chat env chat st w = (Inl TypeError, st, w)"
    by (rule naive_cutoff_raises)
qed

theorem cutoff_is_strict_witness:
  "process_chat (quiet_env (one_page [chat_at 99])) (chat_at 99) (run_state (Some (Aware 100)))
       (fetched None (fresh\<lparr>sync_states := [run_state (Some (Aware 100))]\<rparr>))
     = (Inr True, run_state (Some (Aware 100)),
        fetched None (fresh\<lparr>sync_states := [run_state (Some (Aware 100))]\<rparr>))
   \<and> (\<exists>st' w'. run_loop (Suc 0) (quiet_env (one_page [chat_at 99])) None (run_state (Some (Aware 100)))
                  (fresh\<lparr>sync_states := [run_state (Some (Aware 100))]\<rparr>) = Some (Inr (), st', w')
         \<and> processed_chats st' = 0 \<and> deals w' = [] \<and> customers w' = []
         \<and> api_calls w' = 1)
   \<and> (\<exists>st' w'. process_chat (quiet_env (one_page [chat_at 100])) (chat_at 100)
                  (run_state (Some (Aware 100)))
                  (fresh\<lparr>sync_states := [run_state (Some (Aware 100))]\<rparr>) = (Inr False, st', w')
         \<and> processed_chats st' = 1
         \<and> map sync_status (rows_of ''chat_0000'' w') = [COMPLETE])
   \<and> process_chat (quiet_env (one_page [chat_at 100])) (chat_at 100) (run_state (Some (Naive 100)))
       (fresh\<lparr>sync_states := [run_state (Some (Aware 100))]\<rparr>)
     = (Inl TypeError, run_state (Some (Naive 100)),
        fresh\<lparr>sync_states := [run_state (Some (Aware 100))]\<rparr>)
   \<and> (case sync_chats_task (Suc 0) naive_cutoff_env ''task-1'' (Some ''2024-05-20T10:00:00'') fresh of
        None \<Rightarrow> False
      | Some (res, w') \<Rightarrow> res = Retry TypeError \<and> deals w' = []
          \<and> map status (sync_states w') = [Status_FAILED])"
proof -
  let ?st = "run_state (Some (Aware 100))"
  let ?w = "fresh\<lparr>sync_states := [?st]\<rparr>"
  let ?page = "\<lparr>chats = [chat_at 99], next_cursor = None, has_more = False\<rparr>"
  let ?env = "quiet_env (one_page [chat_at 99])"
  let ?env' = "quiet_env (one_page [chat_at 100])"
  have b: "max_date ?st = Some (Aware 100) \<and> created_at (last_message (chat_at 99)) < 100"
    by (simp add: run_state_def chat_at_def)
  have c: "api_get_chats ?env (api_calls ?w) None = Inr ?page \<and> chats ?page = [] @ chat_at 99 # []
           \<and> process_page ?env [] ?st (fetched None ?w) = (Inr False, ?st, fetched None ?w)
           \<and> ?st \<in> set (sync_states ?w)"
    by (simp add: quiet_env_def one_page_def)
  note t1 = cutoff_is_strict [where st = ?st and D = 100 and chat = "chat_at 99" and env = ?env
      and w = "fetched None ?w" and ?w0.0 = ?w and c = None and page = ?page and pre = "[]"
      and rest = "[]" and ?st0.0 = ?st and n = 0, THEN conjunct1, rule_format, OF b]
  from t1 [THEN conjunct2, rule_format, OF c] obtain st' w' where
    r: "run_loop (Suc 0) ?env None ?st ?w = Some (Inr (), st', w')"
      "processed_chats st' = processed_chats ?st"
      "deals w' = deals (fetched None ?w)" "customers w' = customers (fetched None ?w)"
      "api_calls w' = Suc (api_calls ?w)"
    by blast
  have "processed_chats st' = 0" "deals w' = []" "customers w' = []" "api_calls w' = 1"
    using r(2-5) by (simp_all add: run_state_def fresh_def)
  with r(1) have p2: "\<exists>st' w'. run_loop (Suc 0) ?env None ?st ?w = Some (Inr (), st', w')
         \<and> processed_chats st' = 0 \<and> deals w' = [] \<and> customers w' = [] \<and> api_calls w' = 1"
    by blast
  have d: "max_date ?st = Some (Aware 100) \<and> \<not> created_at (last_message (chat_at 100)) < 100
       \<and> customers_ok ?w \<and> deals_ok ?w \<and> ?st \<in> set (sync_states ?w) \<and> changed ?w (chat_at 100)"
    by (simp add: run_state_def chat_at_def customers_ok_def deals_ok_def fresh_def changed_def
        rows_of_def)
  from cutoff_is_strict [where st = ?st and D = 100 and chat = "chat_at 100" and env = ?env'
      and w = ?w, THEN conjunct2, THEN conjunct1, rule_format, OF d]
  obtain st2 w2 where
    s: "process_chat ?env' (chat_at 100) ?st ?w = (Inr False, st2, w2)"
      "processed_chats st2 = processed_chats ?st + (if record_fails ?env' (chat_at 100) then 0 else 1)"
      "outcome ?env' ?w w2 (chat_at 100)"
    by blast
  have nf: "\<not> record_fails ?env' (chat_at 100)"
    by (simp add: record_fails_def quiet_env_def)
  have v: "processed_chats st2 = 1" "map sync_status (rows_of ''chat_0000'' w2) = [COMPLETE]"
    using s(2,3) nf by (simp_all add: outcome_def run_state_def chat_at_def)
  have p3: "\<exists>st' w'. process_chat ?env' (chat_at 100) ?st ?w = (Inr False, st', w')
         \<and> processed_chats st' = 1 \<and> map sync_status (rows_of ''chat_0000'' w') = [COMPLETE]"
    using s(1) v by (intro exI [of _ st2] exI [of _ w2]) simp
  have e: "max_date (run_state (Some (Naive 100))) = Some (Naive 100)"
    by (simp add: run_state_def)
  note p4 = cutoff_is_strict [where st = "run_state (Some (Naive 100))" and D = 100
      and chat = "chat_at 100" and env = ?env' and w = ?w,
      THEN conjunct2, THEN conjunct2, rule_format, OF e]
  have p5: "(case sync_chats_task (Suc 0) naive_cutoff_env ''task-1'' (Some ''2024-05-20T10:00:00'') fresh of
        None \<Rightarrow> False
      | Some (res, w') \<Rightarrow> res = Retry TypeError \<and> deals w' = []
          \<and> map status (sync_states w') = [Status_FAILED])"
    using naive_cutoff_task by (auto split: option.splits)
  from t1 [THEN conjunct1] p2 p3 p4 p5 show ?thesis
    by (intro conjI)
qed

lemma fetched_ok [simp]:
  "customers_ok (fetched c w) = customers_ok w" "deals_ok (fetched c w) = deals_ok w"
  "rows_of e (fetched c w) = rows_of e w" "changed (fetched c w) chat = changed w chat"
  by (simp_all add: customers_ok_def deals_ok_def rows_of_def changed_def)

lemma filter_good:
  assumes "list_all (\<lambda>c. \<not> record_fails env c) (pre @ post)" and "record_fails env bad"
  shows "filter (\<lambda>c. \<not> record_fails env c) (pre @ bad # post) = pre @ post"
  using assms by (simp add: list_all_iff filter_id_conv)

lemma page_with_one_failure:
  assumes cok: "customers_ok w" and dok: "deals_ok w" and m: "st \<in> set (sync_states w)"
    and f: "api_get_chats env (api_calls w) c = Inr page" and nm: "\<not> has_more page"
    and pg: "chats page = pre @ bad # post"
    and dist: "distinct (map chat_external_id (chats page))"
    and ok: "list_all (\<lambda>chat. \<not> too_old st chat \<and> changed w chat) (chats page)"
    and good: "list_all (\<lambda>chat. \<not> record_fails env chat) (pre @ post)"
    and bad: "record_fails env bad"
  shows "\<exists>st' w'. run_loop (Suc n) env c st w = Some (Inr (), st', w')
           \<and> processed_chats st' = processed_chats st + length pre + length post
           \<and> list_all (\<lambda>chat. map sync_status (rows_of (chat_external_id chat) w') = [COMPLETE])
                (pre @ post)
           \<and> (rows_of (chat_external_id bad) w = [] \<longrightarrow> rows_of (chat_external_id bad) w' = [])
           \<and> (rows_of (chat_external_id bad) w \<noteq> [] \<longrightarrow>
                map sync_status (rows_of (chat_external_id bad) w') = [FAILED])
           \<and> others_same (map chat_external_id (chats page)) w w'"
proof -
  let ?w0 = "fetched c w"
  have m0: "st \<in> set (sync_states ?w0)"
    using m by simp
  have ok0: "list_all (\<lambda>chat. \<not> too_old st chat \<and> changed ?w0 chat) (chats page)"
    using ok by simp
  have c0: "customers_ok ?w0" and d0: "deals_ok ?w0"
    using cok dok by simp_all
  from process_page_outcome [OF c0 d0 m0 dist ok0, of env] obtain st1 w1 where
    p: "process_page env (chats page) st ?w0 = (Inr False, st1, w1)"
    and k: "processed_chats st1
              = processed_chats st + length (filter (\<lambda>c. \<not> record_fails env c) (chats page))"
      "others_same (map chat_external_id (chats page)) ?w0 w1"
      "list_all (outcome env ?w0 w1) (chats page)"
    by (elim exE conjE) (rule that)
  from run_loop_stops [OF f p _ m, of n] nm obtain st' w' where
    r: "run_loop (Suc n) env c st w = Some (Inr (), st', w')"
    and k': "processed_chats st' = processed_chats st1" "deals w' = deals w1"
    by auto
  have rows: "rows_of e w' = rows_of e w1" for e
    using k'(2) by (rule rows_of_kept)
  have cnt: "processed_chats st' = processed_chats st + length pre + length post"
    unfolding k'(1) k(1) pg filter_good [OF good bad] by simp
  have g: "list_all (\<lambda>chat. map sync_status (rows_of (chat_external_id chat) w') = [COMPLETE])
                (pre @ post)"
    using k(3) good unfolding pg by (auto simp: list_all_iff outcome_def rows)
  have b: "map sync_status (rows_of (chat_external_id bad) w')
           = replicate (length (rows_of (chat_external_id bad) w)) FAILED"
    using k(3) bad unfolding pg by (simp add: outcome_def rows)
  have "distinct (map deal_external_id (deals w))"
    using dok by (simp add: deals_ok_def)
  from distinct_key_filter_le_1 [OF this, of "chat_external_id bad"]
  have le: "length (rows_of (chat_external_id bad) w) \<le> 1"
    by (simp add: rows_of_def)
  have b1: "rows_of (chat_external_id bad) w = [] \<longrightarrow> rows_of (chat_external_id bad) w' = []"
    using b by auto
  have b2: "rows_of (chat_external_id bad) w \<noteq> [] \<longrightarrow>
              map sync_status (rows_of (chat_external_id bad) w') = [FAILED]"
  proof
    assume "rows_of (chat_external_id bad) w \<noteq> []"
    then have "length (rows_of (chat_external_id bad) w) = 1"
      using le by (cases "rows_of (chat_external_id bad) w") simp_all
    then show "map sync_status (rows_of (chat_external_id bad) w') = [FAILED]"
      using b by simp
  qed
  have oth: "others_same (map chat_external_id (chats page)) w w'"
    using k(2) k'(2) by (simp add: others_same_def)
  show ?thesis
    using r cnt g b1 b2 oth by simp
qed

lemma replicate3: "replicate 3 x = [x, x, x]"
  by (simp add: numeral_3_eq_3)

lemma ten_ids:
  "chat_external_id (generate_chat cl 0) = ''chat_0000''"
  "chat_external_id (generate_chat cl 1) = ''chat_0001''"
  "chat_external_id (generate_chat cl 2) = ''chat_0002''"
  "chat_external_id (generate_chat cl 3) = ''chat_0003''"
  "chat_external_id (generate_chat cl 4) = ''chat_0004''"
  "chat_external_id (generate_chat cl 5) = ''chat_0005''"
  "chat_external_id (generate_chat cl 6) = ''chat_0006''"
  "chat_external_id (generate_chat cl 7) = ''chat_0007''"
  "chat_external_id (generate_chat cl 8) = ''chat_0008''"
  "chat_external_id (generate_chat cl 9) = ''chat_0009''"
  by (simp_all add: generate_chat_def fmt_04d_def zfill_def Let_def char_of_def bit_0
      replicate3)

lemma seventh_message: "message_id (last_message (generate_chat cl 6)) = ''msg_0006''"
  by (simp add: generate_chat_def fmt_04d_def zfill_def Let_def char_of_def bit_0 replicate3)

lemma ten_page:
  "api_get_chats seventh_fails k None
   = Inr \<lparr>chats = [generate_chat ten_records 0, generate_chat ten_records 1,
                   generate_chat ten_records 2, generate_chat ten_records 3,
                   generate_chat ten_records 4, generate_chat ten_records 5]
                  @ generate_chat ten_records 6
                  # [generate_chat ten_records 7, generate_chat ten_records 8,
                     generate_chat ten_records 9],
          next_cursor = None, has_more = False\<rparr>"
  by (simp add: seventh_fails_def quiet_env_def get_chats_def decode_cursor_def ten_records_def
      Let_def upto_rec1)

lemma seventh_page_facts:
  "distinct (map chat_external_id
      ([generate_chat ten_records 0, generate_chat ten_records 1, generate_chat ten_records 2,
        generate_chat ten_records 3, generate_chat ten_records 4, generate_chat ten_records 5]
       @ generate_chat ten_records 6
       # [generate_chat ten_records 7, generate_chat ten_records 8, generate_chat ten_records 9]))"
  "list_all (\<lambda>chat. \<not> record_fails seventh_fails chat)
      ([generate_chat ten_records 0, generate_chat ten_records 1, generate_chat ten_records 2,
        generate_chat ten_records 3, generate_chat ten_records 4, generate_chat ten_records 5]
       @ [generate_chat ten_records 7, generate_chat ten_records 8, generate_chat ten_records 9])"
  "fault seventh_fails DocumentStep (generate_chat ten_records 6)"
  by (simp_all add: ten_ids record_fails_def seventh_fails_def quiet_env_def)

text \<open>
  C2, as the code has it. A page \<open>pre @ bad # post\<close> of ten records with distinct external
  ids, none older than the cutoff and each bringing a new last message; the write to the
  message store raises for the seventh record \<open>bad\<close>, and no step raises for the nine
  others. Then the run returns normally, its counter has grown by nine, each of the nine
  others has its one entity row COMPLETE, and the seventh record has the entity row it
  had before the run, now FAILED - or none, when it had none: the row inserted for it
  was rolled back, and the handler marks only a row that existed.
\<close>

theorem record_seven_fails:
  assumes "customers_ok w" and "deals_ok w" and "st \<in> set (sync_states w)"
    and "api_get_chats env (api_calls w) c = Inr page" and "\<not> has_more page"
    and "chats page = pre @ bad # post" and "length pre = 6" and "length post = 3"
    and "distinct (map chat_external_id (chats page))"
    and "list_all (\<lambda>chat. \<not> too_old st chat \<and> changed w chat) (chats page)"
    and "list_all (\<lambda>chat. \<not> record_fails env chat) (pre @ post)"
    and "fault env DocumentStep bad"
  shows "\<exists>st' w'. run_loop (Suc n) env c st w = Some (Inr (), st', w')
           \<and> processed_chats st' = processed_chats st + 9
           \<and> list_all (\<lambda>chat. map sync_status (rows_of (chat_external_id chat) w') = [COMPLETE])
                (pre @ post)
           \<and> (rows_of (chat_external_id bad) w = [] \<longrightarrow> rows_of (chat_external_id bad) w' = [])
           \<and> (rows_of (chat_external_id bad) w \<noteq> [] \<longrightarrow>
                map sync_status (rows_of (chat_external_id bad) w') = [FAILED])"
proof -
  have "record_fails env bad"
    using assms(12) by (simp add: record_fails_def)
  from page_with_one_failure [OF assms(1-6) assms(9-11) this, of n] show ?thesis
    using assms(7,8) by auto
qed

theorem record_seven_fails_witness:
  "\<exists>st' w'. run_loop (Suc 0) seventh_fails None (run_state None) seventh_known
               = Some (Inr (), st', w')
     \<and> processed_chats st' = 9
     \<and> map sync_status (rows_of ''chat_0006'' w') = [FAILED]
     \<and> list_all (\<lambda>e. map sync_status (rows_of e w') = [COMPLETE])
          [''chat_0000'', ''chat_0001'', ''chat_0002'', ''chat_0003'', ''chat_0004'',
           ''chat_0005'', ''chat_0007'', ''chat_0008'', ''chat_0009'']"
proof -
  let ?g = "generate_chat ten_records"
  let ?pre = "[?g 0, ?g 1, ?g 2, ?g 3, ?g 4, ?g 5]"
  let ?post = "[?g 7, ?g 8, ?g 9]"
  let ?page = "\<lparr>chats = ?pre @ ?g 6 # ?post, next_cursor = None, has_more = False\<rparr>"
  have h: "customers_ok seventh_known" "deals_ok seventh_known"
    "run_state None \<in> set (sync_states seventh_known)"
    by (simp_all add: customers_ok_def deals_ok_def seventh_known_def fresh_def)
  have f: "api_get_chats seventh_fails (api_calls seventh_known) None = Inr ?page"
    by (rule ten_page)
  have p: "\<not> has_more ?page" "chats ?page = ?pre @ ?g 6 # ?post" "length ?pre = 6"
    "length ?post = 3"
    by simp_all
  have d: "distinct (map chat_external_id (chats ?page))"
    using seventh_page_facts(1) by simp
  have o: "list_all (\<lambda>chat. \<not> too_old (run_state None) chat \<and> changed seventh_known chat)
             (chats ?page)"
    by (simp add: too_old_def run_state_def changed_def rows_of_def seventh_known_def fresh_def
        ten_ids seventh_message)
  from record_seven_fails [OF h f p d o seventh_page_facts(2,3), of 0] obtain st' w' where
    r: "run_loop (Suc 0) seventh_fails None (run_state None) seventh_known = Some (Inr (), st', w')"
      "processed_chats st' = processed_chats (run_state None) + 9"
      "list_all (\<lambda>chat. map sync_status (rows_of (chat_external_id chat) w') = [COMPLETE])
         (?pre @ ?post)"
      "rows_of (chat_external_id (?g 6)) seventh_known \<noteq> [] \<longrightarrow>
         map sync_status (rows_of (chat_external_id (?g 6)) w') = [FAILED]"
    by (elim exE conjE) (rule that)
  have "rows_of ''chat_0006'' seventh_known \<noteq> []"
    by (simp add: rows_of_def seventh_known_def fresh_def)
  then have b: "map sync_status (rows_of ''chat_0006'' w') = [FAILED]"
    using r(4) by (simp add: ten_ids)
  have c: "processed_chats st' = 9"
    using r(2) by (simp add: run_state_def)
  have g: "list_all (\<lambda>e. map sync_status (rows_of e w') = [COMPLETE])
          [''chat_0000'', ''chat_0001'', ''chat_0002'', ''chat_0003'', ''chat_0004'',
           ''chat_0005'', ''chat_0007'', ''chat_0008'', ''chat_0009'']"
    using r(3) by (simp add: ten_ids)
  show ?thesis
    using r(1) b c g by (intro exI [of _ st'] exI [of _ w']) simp
qed

text \<open>
  C2, as stated, fails. On an empty database the ten records are new. The message store
  raises for the seventh: the run returns normally and has counted nine, the nine others
  are COMPLETE, and there is no entity row for the seventh record at all, so none that
  is FAILED.
\<close>

theorem record_seven_counterexample:
  "\<exists>st' w'. run_loop (Suc 0) seventh_fails None (run_state None)
                (fresh\<lparr>sync_states := [run_state None]\<rparr>) = Some (Inr (), st', w')
     \<and> processed_chats st' = 9
     \<and> rows_of ''chat_0006'' w' = []
     \<and> list_all (\<lambda>e. map sync_status (rows_of e w') = [COMPLETE])
          [''chat_0000'', ''chat_0001'', ''chat_0002'', ''chat_0003'', ''chat_0004'',
           ''chat_0005'', ''chat_0007'', ''chat_0008'', ''chat_0009'']"
proof -
  let ?w = "fresh\<lparr>sync_states := [run_state None]\<rparr>"
  let ?g = "generate_chat ten_records"
  let ?pre = "[?g 0, ?g 1, ?g 2, ?g 3, ?g 4, ?g 5]"
  let ?post = "[?g 7, ?g 8, ?g 9]"
  let ?page = "\<lparr>chats = ?pre @ ?g 6 # ?post, next_cursor = None, has_more = False\<rparr>"
  have h: "customers_ok ?w" "deals_ok ?w" "run_state None \<in> set (sync_states ?w)"
    by (simp_all add: customers_ok_def deals_ok_def fresh_def)
  have f: "api_get_chats seventh_fails (api_calls ?w) None = Inr ?page"
    by (rule ten_page)
  have p: "\<not> has_more ?page" "chats ?page = ?pre @ ?g 6 # ?post"
    by simp_all
  have d: "distinct (map chat_external_id (chats ?page))"
    using seventh_page_facts(1) by simp
  have o: "list_all (\<lambda>chat. \<not> too_old (run_state None) chat \<and> changed ?w chat) (chats ?page)"
    by (simp add: too_old_def run_state_def changed_def rows_of_def fresh_def)
  have b: "record_fails seventh_fails (?g 6)"
    using seventh_page_facts(3) by (simp add: record_fails_def)
  from page_with_one_failure [OF h f p d o seventh_page_facts(2) b, of 0] obtain st' w' where
    r: "run_loop (Suc 0) seventh_fails None (run_state None) ?w = Some (Inr (), st', w')"
      "processed_chats st' = processed_chats (run_state None) + length ?pre + length ?post"
      "list_all (\<lambda>chat. map sync_status (rows_of (chat_external_id chat) w') = [COMPLETE])
         (?pre @ ?post)"
      "rows_of (chat_external_id (?g 6)) ?w = [] \<longrightarrow> rows_of (chat_external_id (?g 6)) w' = []"
    by (elim exE conjE) (rule that)
  have "rows_of ''chat_0006'' ?w = []"
    by (simp add: rows_of_def fresh_def)
  then have e: "rows_of ''chat_0006'' w' = []"
    using r(4) by (simp add: ten_ids)
  have c: "processed_chats st' = 9"
    using r(2) by (simp add: run_state_def)
  have g: "list_all (\<lambda>e. map sync_status (rows_of e w') = [COMPLETE])
          [''chat_0000'', ''chat_0001'', ''chat_0002'', ''chat_0003'', ''chat_0004'',
           ''chat_0005'', ''chat_0007'', ''chat_0008'', ''chat_0009'']"
    using r(3) by (simp add: ten_ids)
  show ?thesis
    using r(1) e c g by (intro exI [of _ st'] exI [of _ w']) simp
qed

lemma upsert_no_mark: "list_all upsert_op ops \<Longrightarrow> filter page_mark ops = []"
proof (induction ops)
  case Nil
  then show ?case by simp
next
  case (Cons e ops)
  then show ?case by (cases e) simp_all
qed

lemma marks_log [simp]: "marks (log e w) = marks w @ filter page_mark [e]"
  by (simp add: marks_def)

lemma marks_deal_filter_first: "deal_filter_first eid w = (r, w') \<Longrightarrow> marks w' = marks w"
  by (auto simp: deal_filter_first_def)

lemma marks_sync_chat_atomic:
  assumes "sync_chat_atomic env chat ex w = (r, w')"
  shows "marks w' = marks w"
proof -
  from sync_chat_atomic_trace [OF assms] obtain pre post where
    t: "trace w' = trace w @ [Begin] @ pre @ post @ [if isl r then Rollback else Commit]"
    and p: "list_all upsert_op pre"
    and q: "post = []
              \<or> post = [DocPut (record_eid ex chat) (message_id (last_message chat)) False]
              \<or> post = [DocPut (record_eid ex chat) (message_id (last_message chat)) True]
              \<or> (\<exists>pk. post = [DocPut (record_eid ex chat) (message_id (last_message chat)) True,
                               DealUpdate pk finalize_fields])"
    by blast
  have "filter page_mark post = []"
    using q by auto
  then show ?thesis
    unfolding marks_def t using upsert_no_mark [OF p] by simp
qed

lemma marks_increment:
  "state_save [F_processed_chats, F_updated_at] obj w = (r, st', w') \<Longrightarrow> marks w' = marks w"
  by (auto simp: state_save_def Let_def marks_def split: if_splits)

lemma marks_deal_save: "deal_save fs obj w = (r, w') \<Longrightarrow> marks w' = marks w"
  by (auto simp: deal_save_def marks_def split: if_splits)

lemma marks_process_chat:
  assumes "process_chat env chat st w = (r, st', w')"
  shows "marks w' = marks w"
proof (rule process_chat_rel [where R = "\<lambda>w w'. marks w' = marks w", OF _ _ _ _ _ _ assms])
  show "marks w = marks w" for w by simp
  show "marks b = marks a \<Longrightarrow> marks c = marks b \<Longrightarrow> marks c = marks a" for a b c by simp
  show "deal_filter_first eid w = (r, w') \<Longrightarrow> marks w' = marks w" for eid w r w'
    by (rule marks_deal_filter_first)
  show "sync_chat_atomic env chat ex w = (r, w') \<Longrightarrow> marks w' = marks w" for ex w r w'
    by (rule marks_sync_chat_atomic)
  show "state_save [F_processed_chats, F_updated_at] obj w = (r, st', w') \<Longrightarrow> marks w' = marks w"
    for obj w r st' w'
    by (rule marks_increment)
  show "deal_save fs obj w = (r, w') \<Longrightarrow> marks w' = marks w" for fs obj w r w'
    by (rule marks_deal_save)
qed

lemma marks_process_page:
  assumes "process_page env cs st w = (r, st', w')"
  shows "marks w' = marks w"
  by (rule process_page_rel [where R = "\<lambda>w w'. marks w' = marks w", OF _ _ _ assms])
    (auto dest: marks_process_chat)

lemma marks_cursor_ops [simp]: "filter page_mark (cursor_ops page st) = cursor_ops page st"
  by (simp add: cursor_ops_def split: option.split)

lemma cursor_ops_state: "state_id st' = state_id st \<Longrightarrow> cursor_ops page st' = cursor_ops page st"
  by (simp add: cursor_ops_def split: option.split)

lemma page_step:
  assumes cok: "customers_ok w" and dok: "deals_ok w" and m: "st \<in> set (sync_states w)"
    and f: "api_get_chats env (api_calls w) c = Inr page"
    and dist: "distinct (map chat_external_id (chats page))"
    and ok: "list_all (\<lambda>chat. \<not> too_old st chat \<and> changed w chat) (chats page)"
    and good: "list_all (\<lambda>chat. \<not> record_fails env chat) (chats page)"
  shows "\<exists>st2 w2.
           (has_more page \<longrightarrow> run_loop (Suc n) env c st w = run_loop n env (next_cursor page) st2 w2)
         \<and> (\<not> has_more page \<longrightarrow> run_loop (Suc n) env c st w = Some (Inr (), st2, w2))
         \<and> customers_ok w2 \<and> deals_ok w2 \<and> st2 \<in> set (sync_states w2)
         \<and> state_id st2 = state_id st \<and> task_id st2 = task_id st \<and> status st2 = status st
         \<and> max_date st2 = max_date st
         \<and> cursor st2 = (case next_cursor page of None \<Rightarrow> cursor st
                          | Some nc \<Rightarrow> if nc \<noteq> [] then nc else cursor st)
         \<and> processed_chats st2 = processed_chats st + length (chats page)
         \<and> api_calls w2 = Suc (api_calls w) \<and> cache w2 = cache w
         \<and> others_same (map chat_external_id (chats page)) w w2
         \<and> list_all (\<lambda>chat. map sync_status (rows_of (chat_external_id chat) w2) = [COMPLETE])
              (chats page)
         \<and> marks w2 = marks w @ Fetch c # cursor_ops page st"
proof -
  let ?w0 = "fetched c w"
  have m0: "st \<in> set (sync_states ?w0)"
    using m by simp
  have ok0: "list_all (\<lambda>chat. \<not> too_old st chat \<and> changed ?w0 chat) (chats page)"
    using ok by simp
  have c0: "customers_ok ?w0" and d0: "deals_ok ?w0"
    using cok dok by simp_all
  from process_page_outcome [OF c0 d0 m0 dist ok0, of env] obtain st1 w1 where
    p: "process_page env (chats page) st ?w0 = (Inr False, st1, w1)"
    and k: "customers_ok w1" "deals_ok w1" "st1 \<in> set (sync_states w1)" "same_run st st1"
      "processed_chats st1
         = processed_chats st + length (filter (\<lambda>c. \<not> record_fails env c) (chats page))"
      "others_same (map chat_external_id (chats page)) ?w0 w1"
      "list_all (outcome env ?w0 w1) (chats page)"
    by (elim exE conjE) (rule that)
  from process_page_state [OF m0 p] have a1: "api_calls w1 = Suc (api_calls w)" "cache w1 = cache w"
    by simp_all
  have all: "filter (\<lambda>c. \<not> record_fails env c) (chats page) = chats page"
    using good by (simp add: list_all_iff filter_id_conv)
  from page_cursor_saved [OF k(3), of page] obtain st2 w2 where
    s: "(case next_cursor page of
           None \<Rightarrow> (Inr (), st1, w1)
         | Some nc \<Rightarrow> if nc \<noteq> [] then save_cursor nc st1 w1 else (Inr (), st1, w1))
        = (Inr (), st2, w2)"
    and r: "st2 \<in> set (sync_states w2)" "state_id st2 = state_id st1"
      "task_id st2 = task_id st1" "status st2 = status st1"
      "cursor st2 = (case next_cursor page of None \<Rightarrow> cursor st1
                             | Some nc \<Rightarrow> if nc \<noteq> [] then nc else cursor st1)"
      "max_date st2 = max_date st1" "processed_chats st2 = processed_chats st1"
      "customers w2 = customers w1" "deals w2 = deals w1"
      "customer_seq w2 = customer_seq w1" "deal_seq w2 = deal_seq w1"
      "api_calls w2 = api_calls w1" "cache w2 = cache w1"
      "trace w2 = trace w1 @ cursor_ops page st1"
    by (elim exE conjE) (rule that)
  have l1: "has_more page \<longrightarrow> run_loop (Suc n) env c st w = run_loop n env (next_cursor page) st2 w2"
    using run_loop_continues [OF f p _ s] by simp
  have l2: "\<not> has_more page \<longrightarrow> run_loop (Suc n) env c st w = Some (Inr (), st2, w2)"
    using f p s by (simp add: api_client_get_chats_eq)
  have cok2: "customers_ok w2"
    using customers_ok_kept [OF k(1) r(8) r(10)] .
  have dok2: "deals_ok w2"
    using deals_ok_kept [OF k(2) r(9)] r(11) by simp
  have sr: "state_id st2 = state_id st" "task_id st2 = task_id st" "status st2 = status st"
    "max_date st2 = max_date st"
    "cursor st2 = (case next_cursor page of None \<Rightarrow> cursor st
                          | Some nc \<Rightarrow> if nc \<noteq> [] then nc else cursor st)"
    using r(2-6) k(4) by (simp_all add: same_run_def split: option.split)
  have cnt: "processed_chats st2 = processed_chats st + length (chats page)"
    using r(7) k(5) all by simp
  have oth: "others_same (map chat_external_id (chats page)) w w2"
    using k(6) r(9) by (simp add: others_same_def)
  have rows: "rows_of e w2 = rows_of e w1" for e
    using r(9) by (rule rows_of_kept)
  have fin: "list_all (\<lambda>chat. map sync_status (rows_of (chat_external_id chat) w2) = [COMPLETE])
              (chats page)"
    using k(7) good by (auto simp: list_all_iff outcome_def rows)
  have "marks w1 = marks ?w0"
    using marks_process_page [OF p] .
  then have mk: "marks w2 = marks w @ Fetch c # cursor_ops page st"
    using r(14) cursor_ops_state [of st1 st page] k(4)
    by (simp add: marks_def same_run_def)
  show ?thesis
    using l1 l2 cok2 dok2 r(1) sr cnt a1 r(12,13) oth fin mk
    by (intro exI [of _ st2] exI [of _ w2]) simp
qed

end
